(* ===== verification/Prelude.thy ===== *)
theory Prelude
  imports Main "HOL-Library.Word" "HOL-Library.AList"
begin

text \<open>
  Shared vocabulary of the development: machine integers with the overflow checks that
  \<^verbatim>\<open>Cargo.toml\<close> switches on in every profile (\<^verbatim>\<open>overflow-checks = true\<close>,
  \<^verbatim>\<open>panic = "abort"\<close>), the result type of fallible code, relational tables as row
  lists, bounded caches, and the lemmas about them that the components share.
\<close>

section \<open>Machine integers and byte strings\<close>

type_synonym u8 = "8 word"
type_synonym u16 = "16 word"
type_synonym u64 = "64 word"
type_synonym u128 = "128 word"
type_synonym bytes = "8 word list"
type_synonym hashval = "256 word"
type_synonym pubkey = "256 word"

text \<open>\<^verbatim>\<open>std::net::SocketAddr\<close>, the address part as it is printed.\<close>

datatype sock_addr = SockAddr (sa_ip: string) (sa_port: u16)

section \<open>Results\<close>

text \<open>
  The errors a function returns (\<^verbatim>\<open>anyhow::Error\<close>), one constructor per place that
  makes one, and the reasons for which the process aborts.  \<open>Context\<close> is
  \<^verbatim>\<open>anyhow::Context::context\<close>.
\<close>

datatype err =
    SqlError
  | DecodeError
  | ParseError
  | StfError string
  | DuplicateTx
  | MempoolFull
  | CannotApply u64 u64
  | InsufficientVotes u64 u128 u128
  | MissingBlock u64
  | WantedBlock u64 u64
  | MysteriouslyMissing u64
  | NotConfirmed u64
  | TimedOut
  | RpcFailed
  | IoError
  | DnsError
  | Context string err

datatype panic = Overflow | AssertFailed | ExpectFailed | TodoReached | IndexOutOfRange

datatype 'a res = Ok 'a | Err err | Panic panic

fun bind_res :: "'a res \<Rightarrow> ('a \<Rightarrow> 'b res) \<Rightarrow> 'b res" where
  "bind_res (Ok v) f = f v"
| "bind_res (Err e) f = Err e"
| "bind_res (Panic p) f = Panic p"

text \<open>
  Stateful code returns its result with the state it leaves, whatever the result is; the
  rest of the function runs only on success.
\<close>

fun bind_st :: "'a res \<times> 'st \<Rightarrow> ('a \<Rightarrow> 'st \<Rightarrow> 'b res \<times> 'st) \<Rightarrow> 'b res \<times> 'st" where
  "bind_st (Ok v, s) f = f v s"
| "bind_st (Err e, s) f = (Err e, s)"
| "bind_st (Panic p, s) f = (Panic p, s)"

fun context_res :: "string \<Rightarrow> 'a res \<Rightarrow> 'a res" where
  "context_res c (Ok v) = Ok v"
| "context_res c (Err e) = Err (Context c e)"
| "context_res c (Panic p) = Panic p"

fun is_ok :: "'a res \<Rightarrow> bool" where
  "is_ok (Ok v) = True"
| "is_ok (Err e) = False"
| "is_ok (Panic p) = False"

definition option_to_res :: "err \<Rightarrow> 'a option \<Rightarrow> 'a res" where
  "option_to_res e x = (case x of None \<Rightarrow> Err e | Some v \<Rightarrow> Ok v)"

lemma bind_res_Ok_iff: "bind_res r f = Ok v \<longleftrightarrow> (\<exists>x. r = Ok x \<and> f x = Ok v)"
  by (cases r) auto

lemma bind_res_Err_iff:
  "bind_res r f = Err e \<longleftrightarrow> r = Err e \<or> (\<exists>x. r = Ok x \<and> f x = Err e)"
  by (cases r) auto

lemma bind_st_Ok_iff:
  "bind_st m f = (Ok v, s') \<longleftrightarrow> (\<exists>x s. m = (Ok x, s) \<and> f x s = (Ok v, s'))"
  by (cases "(m, f)" rule: bind_st.cases) auto

text \<open>The three ways a sequential composition can end.\<close>

lemma bind_st_cases:
  assumes "bind_st m f = (r, s')"
  obtains (ok) x s where "m = (Ok x, s)" and "f x s = (r, s')"
  | (err) e where "m = (Err e, s')" and "r = Err e"
  | (panic) p where "m = (Panic p, s')" and "r = Panic p"
  using assms by (cases "(m, f)" rule: bind_st.cases) auto

lemma context_res_Ok_iff [simp]: "context_res c r = Ok v \<longleftrightarrow> r = Ok v"
  by (cases r) auto

lemma option_to_res_simps [simp]:
  "option_to_res e (Some v) = Ok v" "option_to_res e None = Err e"
  by (simp_all add: option_to_res_def)

lemma option_to_res_Ok_iff [simp]: "option_to_res e x = Ok v \<longleftrightarrow> x = Some v"
  by (auto simp: option_to_res_def split: option.splits)

lemma is_ok_iff: "is_ok r \<longleftrightarrow> (\<exists>v. r = Ok v)"
  by (cases r) auto

section \<open>Arithmetic with overflow checks\<close>

definition checked_add :: "'a::len word \<Rightarrow> 'a word \<Rightarrow> 'a word res" where
  "checked_add a b =
     (if unat a + unat b < 2 ^ LENGTH('a) then Ok (a + b) else Panic Overflow)"

definition checked_mul :: "'a::len word \<Rightarrow> 'a word \<Rightarrow> 'a word res" where
  "checked_mul a b =
     (if unat a * unat b < 2 ^ LENGTH('a) then Ok (a * b) else Panic Overflow)"

lemma unat_bound: "unat c < 2 ^ LENGTH('a)" for c :: "'a::len word"
  by (rule unsigned_less)

lemma unat_add_small: "unat a + unat b < 2 ^ LENGTH('a) \<Longrightarrow> unat (a + b) = unat a + unat b"
  for a b :: "'a::len word"
  by (simp add: unat_add_lem)

lemma unat_of_nat_small: "n < 2 ^ LENGTH('a) \<Longrightarrow> unat (of_nat n :: 'a::len word) = n"
  by (simp add: unat_of_nat)

lemma checked_add_Ok_iff:
  fixes a b c :: "'a::len word"
  shows "checked_add a b = Ok c \<longleftrightarrow> unat c = unat a + unat b"
proof
  assume "checked_add a b = Ok c"
  then show "unat c = unat a + unat b"
    by (auto simp: checked_add_def unat_add_lem split: if_splits)
next
  assume *: "unat c = unat a + unat b"
  then have "unat a + unat b < 2 ^ LENGTH('a)"
    using unat_bound [of c] by simp
  moreover from this have "a + b = c"
    using * by (metis unat_add_lem word_unat_eq_iff)
  ultimately show "checked_add a b = Ok c"
    by (simp add: checked_add_def)
qed

lemma checked_mul_Ok_iff:
  fixes a b c :: "'a::len word"
  shows "checked_mul a b = Ok c \<longleftrightarrow> unat c = unat a * unat b"
proof
  assume "checked_mul a b = Ok c"
  then show "unat c = unat a * unat b"
    by (auto simp: checked_mul_def unat_mult_lem split: if_splits)
next
  assume *: "unat c = unat a * unat b"
  then have "unat a * unat b < 2 ^ LENGTH('a)"
    using unat_bound [of c] by simp
  moreover from this have "a * b = c"
    using * by (metis unat_mult_lem word_unat_eq_iff)
  ultimately show "checked_mul a b = Ok c"
    by (simp add: checked_mul_def)
qed

lemma checked_add_not_Err [simp]: "checked_add a b \<noteq> Err e"
  by (simp add: checked_add_def)

lemma checked_mul_not_Err [simp]: "checked_mul a b \<noteq> Err e"
  by (simp add: checked_mul_def)

lemma checked_add_Panic_iff:
  fixes a b :: "'a::len word"
  shows "checked_add a b = Panic p \<longleftrightarrow> p = Overflow \<and> 2 ^ LENGTH('a) \<le> unat a + unat b"
  by (auto simp: checked_add_def)

text \<open>The sum of a list of values, left to right, as a loop with \<^verbatim>\<open>+=\<close> computes it.\<close>

fun checked_sum :: "'a::len word \<Rightarrow> 'a word list \<Rightarrow> 'a word res" where
  "checked_sum acc [] = Ok acc"
| "checked_sum acc (x # xs) = bind_res (checked_add acc x) (\<lambda>acc'. checked_sum acc' xs)"

lemma checked_sum_Ok_iff:
  "checked_sum acc xs = Ok c \<longleftrightarrow> unat c = unat acc + sum_list (map unat xs)"
  for acc c :: "'a::len word"
proof (induction xs arbitrary: acc)
  case Nil
  then show ?case by (auto simp: word_unat_eq_iff)
next
  case (Cons x xs)
  show ?case
  proof
    assume "checked_sum acc (x # xs) = Ok c"
    then show "unat c = unat acc + sum_list (map unat (x # xs))"
      by (auto simp: bind_res_Ok_iff checked_add_Ok_iff Cons)
  next
    assume *: "unat c = unat acc + sum_list (map unat (x # xs))"
    then have "unat acc + unat x < 2 ^ LENGTH('a)"
      using unat_bound [of c] by simp
    then have "checked_add acc x = Ok (acc + x)" and "unat (acc + x) = unat acc + unat x"
      by (simp_all add: checked_add_def unat_add_lem)
    with * show "checked_sum acc (x # xs) = Ok c"
      by (simp add: Cons)
  qed
qed

section \<open>Tables\<close>

text \<open>
  A table with a primary key is the list of its rows in insertion order, the key first.
  An insert of a key that is present violates the primary key and is an error.
\<close>

definition table_insert :: "'k \<Rightarrow> 'v \<Rightarrow> ('k \<times> 'v) list \<Rightarrow> ('k \<times> 'v) list res" where
  "table_insert k v rows =
     (if k \<in> set (map fst rows) then Err SqlError else Ok (rows @ [(k, v)]))"

definition table_insert_or_ignore :: "'k \<Rightarrow> 'v \<Rightarrow> ('k \<times> 'v) list \<Rightarrow> ('k \<times> 'v) list" where
  "table_insert_or_ignore k v rows =
     (if k \<in> set (map fst rows) then rows else rows @ [(k, v)])"

lemma table_insert_Ok_iff:
  "table_insert k v rows = Ok rows' \<longleftrightarrow> k \<notin> set (map fst rows) \<and> rows' = rows @ [(k, v)]"
  by (auto simp: table_insert_def)

lemma table_insert_lookup:
  assumes "table_insert k v rows = Ok rows'"
  shows "map_of rows' = (map_of rows)(k \<mapsto> v)"
proof
  fix j
  from assms have "map_of rows k = None" and "rows' = rows @ [(k, v)]"
    by (simp_all add: table_insert_Ok_iff map_of_eq_None_iff)
  then show "map_of rows' j = ((map_of rows)(k \<mapsto> v)) j"
    by (cases "map_of rows j") (auto simp: map_add_def)
qed

lemma table_insert_lookup_mono:
  "table_insert k v rows = Ok rows' \<Longrightarrow> map_of rows j = Some w \<Longrightarrow> map_of rows' j = Some w"
  by (auto simp: table_insert_def map_add_def split: if_splits)

section \<open>Caches\<close>

text \<open>
  A bounded cache (\<^verbatim>\<open>moka::sync::Cache\<close>, \<^verbatim>\<open>lru::LruCache\<close>) is an association list.
  Which entries an insertion evicts is up to the library: \<open>evict\<close> is a parameter, and the
  only thing the code relies on is that eviction invents nothing.
\<close>

definition cache_put ::
    "(('k \<times> 'v) list \<Rightarrow> ('k \<times> 'v) list) \<Rightarrow> 'k \<Rightarrow> 'v \<Rightarrow> ('k \<times> 'v) list \<Rightarrow> ('k \<times> 'v) list" where
  "cache_put evict k v c = evict (AList.update k v c)"

definition evict_ok :: "(('k \<times> 'v) list \<Rightarrow> ('k \<times> 'v) list) \<Rightarrow> bool" where
  "evict_ok evict \<longleftrightarrow> (\<forall>c k v. map_of (evict c) k = Some v \<longrightarrow> map_of c k = Some v)"

text \<open>A cache is coherent with the function it caches if every entry is the function's value.\<close>

definition coherent :: "('k \<Rightarrow> 'v option) \<Rightarrow> ('k \<times> 'v) list \<Rightarrow> bool" where
  "coherent src c \<longleftrightarrow> (\<forall>k v. map_of c k = Some v \<longrightarrow> src k = Some v)"

lemma coherent_Nil [simp]: "coherent src []"
  by (simp add: coherent_def)

lemma coherent_lookup: "coherent src c \<Longrightarrow> map_of c k = Some v \<Longrightarrow> src k = Some v"
  by (simp add: coherent_def)

lemma coherent_put:
  assumes "evict_ok evict" and "coherent src c" and "src k = Some v"
  shows "coherent src (cache_put evict k v c)"
  unfolding coherent_def
proof (intro allI impI)
  fix j w
  assume "map_of (cache_put evict k v c) j = Some w"
  with assms(1) have "map_of (AList.update k v c) j = Some w"
    unfolding evict_ok_def cache_put_def by blast
  with assms(2,3) show "src j = Some w"
    by (auto simp: update_conv coherent_def split: if_splits)
qed

lemma coherent_mono:
  "coherent src c \<Longrightarrow> (\<And>k v. src k = Some v \<Longrightarrow> src' k = Some v) \<Longrightarrow> coherent src' c"
  by (auto simp: coherent_def)

lemma evict_ok_id [simp]: "evict_ok (\<lambda>c. c)"
  by (simp add: evict_ok_def)

section \<open>Consecutive heights\<close>

text \<open>A list of heights that counts 1, 2, \<open>\<dots>\<close>\<close>

definition consecutive :: "u64 list \<Rightarrow> bool" where
  "consecutive hs \<longleftrightarrow> map unat hs = [1..<Suc (length hs)]"

lemma consecutive_Nil [simp]: "consecutive []"
  by (simp add: consecutive_def)

lemma consecutive_snoc [simp]:
  "consecutive (hs @ [h]) \<longleftrightarrow> consecutive hs \<and> unat h = Suc (length hs)"
  by (auto simp: consecutive_def)

lemma consecutive_set:
  assumes "consecutive hs"
  shows "h \<in> set hs \<longleftrightarrow> 1 \<le> unat h \<and> unat h \<le> length hs"
proof -
  have "unat ` set hs = set (map unat hs)" by simp
  also have "\<dots> = {1..length hs}"
    using assms unfolding consecutive_def by (simp only: set_upt atLeastLessThanSuc_atLeastAtMost)
  finally have "unat ` set hs = {1..length hs}" .
  moreover have "h \<in> set hs \<longleftrightarrow> unat h \<in> unat ` set hs"
    by (auto dest: word_unat_eq_iff [THEN iffD2])
  ultimately show ?thesis by auto
qed

lemma consecutive_last: "consecutive hs \<Longrightarrow> hs \<noteq> [] \<Longrightarrow> unat (last hs) = length hs"
  by (cases hs rule: rev_cases) auto

lemma consecutive_distinct: "consecutive hs \<Longrightarrow> distinct hs"
  unfolding consecutive_def by (metis distinct_map distinct_upt)

lemma unat_u64_Suc: "unat (h + 1) = Suc (unat h)" if "unat h < 2 ^ 64 - 1" for h :: u64
  using that by (simp add: unat_word_ariths)

end
