(* ===== verification/Autoretry.thy ===== *)
theory Autoretry
  imports Prelude
begin

text \<open>
  \<^verbatim>\<open>src/autoretry.rs\<close>: retry a fallible operation with exponential backoff.  The
  attempts are a function of the attempt's number.  Durations are nanoseconds;
  \<^verbatim>\<open>Duration\<close> holds seconds in 64 bits and \<^verbatim>\<open>sleep_interval *= 2\<close> panics on overflow, so
  the loop ends even when every attempt fails, after sleeping for more than 500 billion
  years.  The result carries the time slept.
\<close>

definition duration_max :: nat where
  "duration_max = 2 ^ 64 * 10 ^ 9 - 1"

text \<open>The variable \<^verbatim>\<open>sleep_interval\<close> after \<open>k\<close> failures: 50 ms, doubled each time.\<close>

primrec sleep_interval :: "nat \<Rightarrow> nat" where
  "sleep_interval 0 = 50000000"
| "sleep_interval (Suc k) = 2 * sleep_interval k"

lemma sleep_interval_eq: "sleep_interval k = 50000000 * 2 ^ k"
  by (induction k) auto

lemma sleep_interval_pos [simp]: "0 < sleep_interval k"
  by (simp add: sleep_interval_eq)

lemma sleep_interval_less: "2 * sleep_interval k \<le> m \<Longrightarrow> sleep_interval k < m"
  using sleep_interval_pos [of k] by linarith

function autoretry_loop :: "(nat \<Rightarrow> 'a res) \<Rightarrow> nat \<Rightarrow> nat \<Rightarrow> 'a res \<times> nat" where
  "autoretry_loop f k slept =
     (case f k of
        Ok v \<Rightarrow> (Ok v, slept)
      | Panic p \<Rightarrow> (Panic p, slept)
      | Err e \<Rightarrow>
          let slept' = slept + sleep_interval k in
          if 2 * sleep_interval k \<le> duration_max then autoretry_loop f (Suc k) slept'
          else (Panic Overflow, slept'))"
  by pat_completeness auto
termination
  by (relation "measure (\<lambda>(f, k, slept). duration_max - sleep_interval k)")
    (auto simp: sleep_interval_less intro: diff_less_mono2)

declare autoretry_loop.simps [simp del]

definition autoretry :: "(nat \<Rightarrow> 'a res) \<Rightarrow> 'a res \<times> nat" where
  "autoretry f = autoretry_loop f 0 0"

text \<open>An operation whose outcome does not change between attempts.\<close>

definition retrying :: "'a res \<Rightarrow> 'a res" where
  "retrying r = fst (autoretry (\<lambda>_. r))"

text \<open>The failures it survives: the first success among the attempts is the result.\<close>

lemma autoretry_loop_first_ok:
  assumes "f (k + n) = Ok v" and "\<forall>i<n. \<exists>e. f (k + i) = Err e"
    and "sleep_interval (k + n) \<le> duration_max"
  shows "autoretry_loop f k slept =
    (Ok v, slept + (sleep_interval (k + n) - sleep_interval k))"
  using assms
proof (induction n arbitrary: k slept)
  case 0
  then show ?case by (subst autoretry_loop.simps) simp
next
  case (Suc n)
  from Suc.prems(2) obtain e where e: "f k = Err e" by fastforce
  have le: "2 * sleep_interval k \<le> sleep_interval (k + Suc n)"
    by (simp add: sleep_interval_eq power_add)
  have "autoretry_loop f (Suc k) (slept + sleep_interval k) =
    (Ok v, slept + sleep_interval k + (sleep_interval (Suc k + n) - sleep_interval (Suc k)))"
  proof (rule Suc.IH)
    show "\<forall>i<n. \<exists>e. f (Suc k + i) = Err e"
      using Suc.prems(2) by (metis Suc_less_eq add_Suc_shift)
  qed (use Suc.prems in simp_all)
  with e le Suc.prems(3) show ?case
    by (subst autoretry_loop.simps) (auto simp: Let_def)
qed

lemma autoretry_first_ok:
  assumes "f n = Ok v" and "\<forall>i<n. \<exists>e. f i = Err e" and "n \<le> 68"
  shows "autoretry f = (Ok v, 50000000 * (2 ^ n - 1))"
proof -
  have "(2::nat) ^ n \<le> 2 ^ 68"
    by (rule power_increasing) (use assms(3) in auto)
  then have "sleep_interval (0 + n) \<le> duration_max"
    by (simp add: sleep_interval_eq duration_max_def)
  with assms show ?thesis
    unfolding autoretry_def
    by (subst autoretry_loop_first_ok [where n = n])
      (auto simp: sleep_interval_eq diff_mult_distrib2)
qed

text \<open>An operation that never succeeds is given up only when the interval overflows.\<close>

lemma autoretry_loop_all_err:
  assumes "\<forall>i. \<exists>e. f i = Err e"
  shows "fst (autoretry_loop f k slept) = Panic Overflow \<and>
    slept + duration_max < 2 * snd (autoretry_loop f k slept)"
  using assms
proof (induction f k slept rule: autoretry_loop.induct)
  case (1 f k slept)
  from "1.prems" obtain e where e: "f k = Err e" by blast
  show ?case
  proof (cases "2 * sleep_interval k \<le> duration_max")
    case True
    from "1.IH" [OF e refl True "1.prems"] e True show ?thesis
      by (subst (1 2) autoretry_loop.simps) (auto simp: Let_def)
  next
    case False
    with e show ?thesis
      by (subst (1 2) autoretry_loop.simps) (auto simp: Let_def)
  qed
qed

lemma retrying_Ok [simp]: "retrying (Ok v) = Ok v"
  by (simp add: retrying_def autoretry_def autoretry_loop.simps)

lemma retrying_Panic [simp]: "retrying (Panic p) = Panic p"
  by (simp add: retrying_def autoretry_def autoretry_loop.simps)

lemma retrying_Err [simp]: "retrying (Err e) = (Panic Overflow :: 'a res)"
  using autoretry_loop_all_err [of "\<lambda>_. Err e :: 'a res" 0 0]
  by (simp add: retrying_def autoretry_def)

lemma retrying_Ok_iff [simp]: "retrying r = Ok v \<longleftrightarrow> r = Ok v"
  by (cases r) auto

lemma retrying_not_Err [simp]: "retrying r \<noteq> Err e"
  by (cases r) auto

text \<open>
  Transient faults do not show: when the first \<open>n\<close> attempts fail for reasons outside the
  operation and the next one does not, the result is the one of a single undisturbed attempt.
\<close>

definition with_faults :: "nat \<Rightarrow> 'a res \<Rightarrow> nat \<Rightarrow> 'a res" where
  "with_faults n r = (\<lambda>i. if i < n then Err IoError else r)"

lemma autoretry_with_faults:
  assumes "n \<le> 68" and "r = Ok v"
  shows "fst (autoretry (with_faults n r)) = retrying r"
  using autoretry_first_ok [of "with_faults n r" n v] assms by (simp add: with_faults_def)

section \<open>Properties\<close>

text \<open>C16: Retrying survives transient failures and reports the first success: when the first \<open>n\<close>
  attempts fail and the next one succeeds, \<^verbatim>\<open>autoretry\<close> returns that value after sleeping
  50 ms * (2^n - 1) in all, for every \<open>n\<close> up to 68, where the interval still fits a
  \<^verbatim>\<open>Duration\<close>.\<close>

theorem autoretry_backoff:
  assumes "f n = Ok v" and "\<forall>i<n. \<exists>e. f i = Err e" and "n \<le> 68"
  shows "autoretry f = (Ok v, 50000000 * (2 ^ n - 1))"
  by (rule autoretry_first_ok [OF assms])

theorem autoretry_backoff_witness:
  "autoretry (with_faults 3 (Ok (7::nat))) = (Ok 7, 350000000)"
  using autoretry_backoff [of "with_faults 3 (Ok (7::nat))" 3 7] by (simp add: with_faults_def)

text \<open>Retrying always ends, but never with an error: an operation that fails at every attempt is
  given up only when doubling the interval overflows a \<^verbatim>\<open>Duration\<close>, which aborts the process
  after sleeping for more than 2^63 seconds.\<close>

theorem autoretry_gives_up_by_overflow:
  assumes "\<forall>i. \<exists>e. f i = Err e"
  shows "fst (autoretry f) = Panic Overflow \<and> 2 ^ 63 * 10 ^ 9 \<le> snd (autoretry f)"
  using autoretry_loop_all_err [OF assms, of 0 0]
  by (simp add: autoretry_def duration_max_def)

theorem autoretry_gives_up_by_overflow_witness:
  "fst (autoretry (\<lambda>_. Err SqlError :: nat res)) = Panic Overflow \<and>
   2 ^ 63 * 10 ^ 9 \<le> snd (autoretry (\<lambda>_. Err SqlError :: nat res))"
  by (rule autoretry_gives_up_by_overflow) simp

end
