(* ===== verification/Chain.thy ===== *)
theory Chain
  imports Prelude
begin

text \<open>
  The data the node handles, and the code it relies on that is not in this repository.

  The types of \<^verbatim>\<open>melstructs\<close> are records with the fields this repository reads or
  builds by name; what it never looks into is one opaque byte string (\<open>hd_rest\<close>,
  \<open>tx_rest\<close>).  The functions of \<^verbatim>\<open>stdcode\<close>, \<^verbatim>\<open>tmelcrypt\<close>, \<^verbatim>\<open>melstructs\<close>,
  \<^verbatim>\<open>tip911_stakeset\<close>, \<^verbatim>\<open>melstf\<close>, \<^verbatim>\<open>rusqlite\<close> and \<^verbatim>\<open>moka\<close> are the fields of one
  record \<open>ext\<close>, an argument of every definition that uses them.  What a theorem needs to
  know about them is a named hypothesis at the end of this theory.
\<close>

section \<open>Data\<close>

datatype netid =
    Mainnet | Testnet
  | Custom02 | Custom03 | Custom04 | Custom05 | Custom06 | Custom07 | Custom08

datatype denom = Mel | OtherDenom bytes

record coin_data =
  cd_covhash :: hashval
  cd_value :: u128
  cd_denom :: denom
  cd_additional_data :: bytes

datatype tx_kind = Stake | OtherKind u8

record tx =
  kind :: tx_kind
  outputs :: "coin_data list"
  tx_data :: bytes
  sigs :: "bytes list"
  tx_rest :: bytes

record header =
  hd_network :: netid
  hd_height :: u64
  hd_fee_multiplier :: u128
  hd_stakes_hash :: hashval
  hd_rest :: bytes

record proposer_action =
  fee_multiplier_delta :: int
  reward_dest :: hashval

text \<open>\<open>transactions\<close> is a hash set in the source; the list is the order it is iterated in.\<close>

record block =
  b_header :: header
  transactions :: "tx list"
  b_proposer_action :: "proposer_action option"

record stake_doc =
  sd_pubkey :: pubkey
  sd_e_start :: u64
  sd_e_post_end :: u64
  sd_syms_staked :: u128

text \<open>A \<^verbatim>\<open>ConsensusProof\<close> maps public keys to signatures.\<close>

type_synonym cproof = "(pubkey \<times> bytes) list"

record genesis_config =
  gc_network :: netid
  gc_init_coindata :: coin_data
  gc_stakes :: "(hashval \<times> stake_doc) list"
  gc_init_fee_pool :: u128
  gc_init_fee_multiplier :: u128

section \<open>Code outside the repository\<close>

text \<open>
  Type variables: \<open>'f\<close> the Merkle forest (\<^verbatim>\<open>novasmt::Database<MeshaCas>\<close>), \<open>'s\<close> a
  \<^verbatim>\<open>SealedState\<close>, \<open>'u\<close> an \<^verbatim>\<open>UnsealedState\<close>, \<open>'k\<close> a \<^verbatim>\<open>StakeSet\<close>.  Methods that
  take \<^verbatim>\<open>&mut self\<close> return the new value.
\<close>

record ('f, 's, 'u, 'k) ext =
  \<comment> \<open>stdcode, hex, string forms\<close>
  enc_header :: "header \<Rightarrow> bytes"
  enc_block :: "block \<Rightarrow> bytes"
  dec_block :: "bytes \<Rightarrow> block option"
  enc_proof :: "cproof \<Rightarrow> bytes"
  dec_proof :: "bytes \<Rightarrow> cproof option"
  enc_doc :: "stake_doc \<Rightarrow> bytes"
  dec_doc :: "bytes \<Rightarrow> stake_doc option"
  enc_genesis :: "genesis_config \<Rightarrow> bytes"
  hash_single :: "bytes \<Rightarrow> hashval"
  hex_encode :: "hashval \<Rightarrow> string"
  txhash_to_string :: "hashval \<Rightarrow> string"
  txhash_parse :: "string \<Rightarrow> hashval option"
  \<comment> \<open>melstructs, melvm, tmelcrypt\<close>
  header_hash :: "header \<Rightarrow> hashval"
  hash_nosigs :: "tx \<Rightarrow> hashval"
  weight :: "tx \<Rightarrow> u128"
  epoch :: "u64 \<Rightarrow> u64"
  verify :: "pubkey \<Rightarrow> hashval \<Rightarrow> bytes \<Rightarrow> bool"
  \<comment> \<open>tip911-stakeset\<close>
  stakes_new :: "'k"
  add_stake :: "hashval \<Rightarrow> stake_doc \<Rightarrow> 'k \<Rightarrow> 'k"
  unlock_old :: "u64 \<Rightarrow> 'k \<Rightarrow> 'k"
  pre_tip911 :: "'k \<Rightarrow> (bytes \<times> bytes) list"
  root_hash :: "'k \<Rightarrow> hashval"
  stakes_iter :: "'k \<Rightarrow> (hashval \<times> stake_doc) list"
  ss_votes :: "'k \<Rightarrow> u64 \<Rightarrow> pubkey \<Rightarrow> u128"
  ss_total_votes :: "'k \<Rightarrow> u64 \<Rightarrow> u128"
  \<comment> \<open>melstf\<close>
  realize :: "genesis_config \<Rightarrow> 'f \<Rightarrow> 'u"
  seal :: "proposer_action option \<Rightarrow> 'u \<Rightarrow> 's"
  apply_tx :: "tx \<Rightarrow> 'u \<Rightarrow> unit res \<times> 'u"
  state_header :: "'s \<Rightarrow> header"
  raw_stakes :: "'s \<Rightarrow> 'k"
  stf_apply_block :: "block \<Rightarrow> 's \<Rightarrow> 'f \<Rightarrow> 's res \<times> 'f"
  from_block :: "block \<Rightarrow> 'k \<Rightarrow> 'f \<Rightarrow> 's"
  next_unsealed :: "'s \<Rightarrow> 'u"
  to_block :: "'s \<Rightarrow> block"
  state_is_empty :: "'s \<Rightarrow> bool"
  \<comment> \<open>meshanina through novasmt\<close>
  forest_flush :: "'f \<Rightarrow> 'f"
  \<comment> \<open>rusqlite: which integers can be bound to a statement, and whether the n-th statement
     of the transaction that stores a block fails with an I/O error\<close>
  sql_bindable :: "u64 \<Rightarrow> bool"
  sql_fault :: "block \<Rightarrow> nat \<Rightarrow> bool"
  \<comment> \<open>moka\<close>
  evict_block :: "(u64 \<times> block) list \<Rightarrow> (u64 \<times> block) list"

abbreviation height_of :: "block \<Rightarrow> u64" where
  "height_of b \<equiv> hd_height (b_header b)"

section \<open>What the code relies on\<close>

text \<open>
  \<^verbatim>\<open>stdcode\<close> round trips, and a transaction hash printed with \<^verbatim>\<open>to_string\<close> parses back.
\<close>

definition codec_ok :: "('f, 's, 'u, 'k, 'x) ext_scheme \<Rightarrow> bool" where
  "codec_ok E \<longleftrightarrow>
     (\<forall>b. dec_block E (enc_block E b) = Some b) \<and>
     (\<forall>p. dec_proof E (enc_proof E p) = Some p) \<and>
     (\<forall>d. dec_doc E (enc_doc E d) = Some d) \<and>
     (\<forall>h. txhash_parse E (txhash_to_string E h) = Some h)"

lemma codec_okD [simp]:
  assumes "codec_ok E"
  shows "dec_block E (enc_block E b) = Some b"
    and "dec_proof E (enc_proof E p) = Some p"
    and "dec_doc E (enc_doc E d) = Some d"
    and "txhash_parse E (txhash_to_string E h) = Some h"
  using assms by (simp_all add: codec_ok_def)

text \<open>\<^verbatim>\<open>apply_tx\<close> leaves the state as it was when it returns an error.\<close>

definition apply_tx_atomic :: "('f, 's, 'u, 'k, 'x) ext_scheme \<Rightarrow> bool" where
  "apply_tx_atomic E \<longleftrightarrow> (\<forall>t u e. fst (apply_tx E t u) = Err e \<longrightarrow> snd (apply_tx E t u) = u)"

text \<open>\<^verbatim>\<open>hash_nosigs\<close> does not depend on the signatures of a transaction.\<close>

definition nosigs_ok :: "('f, 's, 'u, 'k, 'x) ext_scheme \<Rightarrow> bool" where
  "nosigs_ok E \<longleftrightarrow> (\<forall>t s. hash_nosigs E (t\<lparr>sigs := s\<rparr>) = hash_nosigs E t)"

text \<open>
  A sealed state has the header of the block it was rebuilt from, and the genesis state is at
  height 0.
\<close>

definition stf_header_ok :: "('f, 's, 'u, 'k, 'x) ext_scheme \<Rightarrow> bool" where
  "stf_header_ok E \<longleftrightarrow>
     (\<forall>b k f. state_header E (from_block E b k f) = b_header b) \<and>
     (\<forall>g f p. hd_height (state_header E (seal E p (realize E g f))) = 0)"

text \<open>The heights the node handles fit \<^verbatim>\<open>SQLite\<close>'s signed integers.\<close>

definition sql_range_ok :: "('f, 's, 'u, 'k, 'x) ext_scheme \<Rightarrow> bool" where
  "sql_range_ok E \<longleftrightarrow> (\<forall>h. sql_bindable E h \<longleftrightarrow> unat h < 2 ^ 63)"

end
