(* ===== verification/Demo.thy ===== *)
theory Demo
  imports Chain
begin

text \<open>
  A concrete instance of the parameters of theory \<^verbatim>\<open>Chain\<close>, for the witnesses: a small
  byte codec with its round-trip laws, and a chain whose states are lists.  It stands for no
  code of the repository; it shows that the hypotheses on the external code can hold together.
\<close>

section \<open>A byte codec\<close>

named_theorems codec_laws "decoding what was encoded, followed by any rest"

fun put_nat :: "nat \<Rightarrow> bytes" where
  "put_nat 0 = [0]"
| "put_nat (Suc n) = 1 # put_nat n"

fun get_nat :: "bytes \<Rightarrow> (nat \<times> bytes) option" where
  "get_nat [] = None"
| "get_nat (b # bs) =
     (if b = 0 then Some (0, bs)
      else case get_nat bs of None \<Rightarrow> None | Some (n, r) \<Rightarrow> Some (Suc n, r))"

lemma get_put_nat [codec_laws]: "get_nat (put_nat n @ r) = Some (n, r)"
  by (induction n) auto

definition put_word :: "'a::len word \<Rightarrow> bytes" where
  "put_word w = put_nat (unat w)"

definition get_word :: "bytes \<Rightarrow> ('a::len word \<times> bytes) option" where
  "get_word bs = (case get_nat bs of None \<Rightarrow> None | Some (n, r) \<Rightarrow> Some (of_nat n, r))"

lemma get_put_word [codec_laws]: "get_word (put_word w @ r) = Some (w, r)"
  by (simp add: get_word_def put_word_def get_put_nat)

fun get_many :: "(bytes \<Rightarrow> ('a \<times> bytes) option) \<Rightarrow> nat \<Rightarrow> bytes \<Rightarrow> ('a list \<times> bytes) option" where
  "get_many g 0 bs = Some ([], bs)"
| "get_many g (Suc n) bs =
     (case g bs of None \<Rightarrow> None
      | Some (x, r) \<Rightarrow> (case get_many g n r of None \<Rightarrow> None | Some (xs, r') \<Rightarrow> Some (x # xs, r')))"

definition put_list :: "('a \<Rightarrow> bytes) \<Rightarrow> 'a list \<Rightarrow> bytes" where
  "put_list p xs = put_nat (length xs) @ concat (map p xs)"

definition get_list :: "(bytes \<Rightarrow> ('a \<times> bytes) option) \<Rightarrow> bytes \<Rightarrow> ('a list \<times> bytes) option" where
  "get_list g bs = (case get_nat bs of None \<Rightarrow> None | Some (n, r) \<Rightarrow> get_many g n r)"

lemma get_many_concat:
  assumes "\<And>x r. g (p x @ r) = Some (x, r)"
  shows "get_many g (length xs) (concat (map p xs) @ r) = Some (xs, r)"
  by (induction xs) (simp_all add: assms)

lemma get_put_list [codec_laws]:
  "(\<And>x r. g (p x @ r) = Some (x, r)) \<Longrightarrow> get_list g (put_list p xs @ r) = Some (xs, r)"
  by (simp add: get_list_def put_list_def get_put_nat get_many_concat)

definition put_bytes :: "bytes \<Rightarrow> bytes" where
  "put_bytes = put_list put_word"

definition get_bytes :: "bytes \<Rightarrow> (bytes \<times> bytes) option" where
  "get_bytes = get_list get_word"

lemma get_put_bytes [codec_laws]: "get_bytes (put_bytes x @ r) = Some (x, r)"
  unfolding get_bytes_def put_bytes_def by (rule get_put_list) (rule get_put_word)

definition put_int :: "int \<Rightarrow> bytes" where
  "put_int i = put_nat (if i < 0 then 1 else 0) @ put_nat (nat \<bar>i\<bar>)"

definition get_int :: "bytes \<Rightarrow> (int \<times> bytes) option" where
  "get_int bs =
     (case get_nat bs of None \<Rightarrow> None
      | Some (neg, r) \<Rightarrow> (case get_nat r of None \<Rightarrow> None
        | Some (n, r') \<Rightarrow> Some (if neg = 0 then int n else - int n, r')))"

lemma get_put_int [codec_laws]: "get_int (put_int i @ r) = Some (i, r)"
  by (simp add: get_int_def put_int_def get_put_nat)

text \<open>Decoding one value after the other.\<close>

definition and_then ::
    "('a \<times> bytes) option \<Rightarrow> ('a \<Rightarrow> bytes \<Rightarrow> ('b \<times> bytes) option) \<Rightarrow> ('b \<times> bytes) option" where
  "and_then x f = (case x of None \<Rightarrow> None | Some (v, r) \<Rightarrow> f v r)"

lemma and_then_Some [simp]: "and_then (Some (v, r)) f = f v r"
  by (simp add: and_then_def)

section \<open>The encodings of the chain's data\<close>

definition netids :: "netid list" where
  "netids = [Mainnet, Testnet, Custom02, Custom03, Custom04, Custom05, Custom06, Custom07, Custom08]"

fun net_code :: "netid \<Rightarrow> nat" where
  "net_code Mainnet = 0" | "net_code Testnet = 1" | "net_code Custom02 = 2"
| "net_code Custom03 = 3" | "net_code Custom04 = 4" | "net_code Custom05 = 5"
| "net_code Custom06 = 6" | "net_code Custom07 = 7" | "net_code Custom08 = 8"

lemma nth_net_code: "net_code n < length netids \<and> netids ! net_code n = n"
  by (cases n) (simp_all add: netids_def)

definition put_header :: "header \<Rightarrow> bytes" where
  "put_header h = put_nat (net_code (hd_network h)) @ put_word (hd_height h) @
     put_word (hd_fee_multiplier h) @ put_word (hd_stakes_hash h) @ put_bytes (hd_rest h)"

definition get_header :: "bytes \<Rightarrow> (header \<times> bytes) option" where
  "get_header bs =
     and_then (get_nat bs) (\<lambda>n r. and_then (get_word r) (\<lambda>ht r. and_then (get_word r) (\<lambda>fee r.
     and_then (get_word r) (\<lambda>sh r. and_then (get_bytes r) (\<lambda>rest r.
       if n < length netids then
         Some (\<lparr>hd_network = netids ! n, hd_height = ht, hd_fee_multiplier = fee,
                hd_stakes_hash = sh, hd_rest = rest\<rparr>, r)
       else None)))))"

lemma get_put_header [codec_laws]: "get_header (put_header h @ r) = Some (h, r)"
  by (simp add: get_header_def put_header_def codec_laws nth_net_code)

definition put_coin :: "coin_data \<Rightarrow> bytes" where
  "put_coin c = put_word (cd_covhash c) @ put_word (cd_value c) @
     (case cd_denom c of Mel \<Rightarrow> put_nat 0 @ put_bytes [] | OtherDenom d \<Rightarrow> put_nat 1 @ put_bytes d) @
     put_bytes (cd_additional_data c)"

definition get_coin :: "bytes \<Rightarrow> (coin_data \<times> bytes) option" where
  "get_coin bs =
     and_then (get_word bs) (\<lambda>cov r. and_then (get_word r) (\<lambda>v r. and_then (get_nat r) (\<lambda>k r.
     and_then (get_bytes r) (\<lambda>d r. and_then (get_bytes r) (\<lambda>a r.
       Some (\<lparr>cd_covhash = cov, cd_value = v,
              cd_denom = (if k = 0 then Mel else OtherDenom d), cd_additional_data = a\<rparr>, r))))))"

lemma get_put_coin [codec_laws]: "get_coin (put_coin c @ r) = Some (c, r)"
  by (simp add: get_coin_def put_coin_def codec_laws split: denom.splits)

definition put_tx :: "tx \<Rightarrow> bytes" where
  "put_tx t = (case kind t of Stake \<Rightarrow> put_nat 0 @ put_word (0::u8) | OtherKind k \<Rightarrow> put_nat 1 @ put_word k) @
     put_list put_coin (outputs t) @ put_bytes (tx_data t) @
     put_list put_bytes (sigs t) @ put_bytes (tx_rest t)"

definition get_tx :: "bytes \<Rightarrow> (tx \<times> bytes) option" where
  "get_tx bs =
     and_then (get_nat bs) (\<lambda>k r. and_then (get_word r) (\<lambda>w r. and_then (get_list get_coin r) (\<lambda>os r.
     and_then (get_bytes r) (\<lambda>d r. and_then (get_list get_bytes r) (\<lambda>ss r.
     and_then (get_bytes r) (\<lambda>rest r.
       Some (\<lparr>kind = (if k = 0 then Stake else OtherKind w), outputs = os, tx_data = d,
              sigs = ss, tx_rest = rest\<rparr>, r)))))))"

lemma get_put_tx [codec_laws]: "get_tx (put_tx t @ r) = Some (t, r)"
  by (simp add: get_tx_def put_tx_def codec_laws split: tx_kind.splits)

definition put_block :: "block \<Rightarrow> bytes" where
  "put_block b = put_header (b_header b) @ put_list put_tx (transactions b) @
     (case b_proposer_action b of None \<Rightarrow> put_nat 0 @ put_int 0 @ put_word (0::hashval)
      | Some a \<Rightarrow> put_nat 1 @ put_int (fee_multiplier_delta a) @ put_word (reward_dest a))"

definition get_block_bytes :: "bytes \<Rightarrow> (block \<times> bytes) option" where
  "get_block_bytes bs =
     and_then (get_header bs) (\<lambda>h r. and_then (get_list get_tx r) (\<lambda>ts r.
     and_then (get_nat r) (\<lambda>k r. and_then (get_int r) (\<lambda>d r. and_then (get_word r) (\<lambda>w r.
       Some (\<lparr>b_header = h, transactions = ts, b_proposer_action =
         (if k = 0 then None else Some \<lparr>fee_multiplier_delta = d, reward_dest = w\<rparr>)\<rparr>, r))))))"

lemma get_put_block [codec_laws]: "get_block_bytes (put_block b @ r) = Some (b, r)"
  by (simp add: get_block_bytes_def put_block_def codec_laws split: option.splits)

definition put_proof :: "cproof \<Rightarrow> bytes" where
  "put_proof = put_list (\<lambda>(k, s). put_word k @ put_bytes s)"

definition get_proof_bytes :: "bytes \<Rightarrow> (cproof \<times> bytes) option" where
  "get_proof_bytes = get_list (\<lambda>bs. and_then (get_word bs) (\<lambda>k r. and_then (get_bytes r) (\<lambda>s r.
     Some ((k, s), r))))"

lemma get_put_proof [codec_laws]: "get_proof_bytes (put_proof p @ r) = Some (p, r)"
  unfolding get_proof_bytes_def put_proof_def
  by (rule get_put_list) (auto simp: codec_laws)

definition put_doc :: "stake_doc \<Rightarrow> bytes" where
  "put_doc d = put_word (sd_pubkey d) @ put_word (sd_e_start d) @ put_word (sd_e_post_end d) @
     put_word (sd_syms_staked d)"

definition get_doc :: "bytes \<Rightarrow> (stake_doc \<times> bytes) option" where
  "get_doc bs =
     and_then (get_word bs) (\<lambda>k r. and_then (get_word r) (\<lambda>s r. and_then (get_word r) (\<lambda>e r.
     and_then (get_word r) (\<lambda>v r.
       Some (\<lparr>sd_pubkey = k, sd_e_start = s, sd_e_post_end = e, sd_syms_staked = v\<rparr>, r)))))"

lemma get_put_doc [codec_laws]: "get_doc (put_doc d @ r) = Some (d, r)"
  by (simp add: get_doc_def put_doc_def codec_laws)

text \<open>Decoding a whole string: nothing may be left over.\<close>

definition exactly :: "('a \<times> bytes) option \<Rightarrow> 'a option" where
  "exactly x = (case x of Some (v, []) \<Rightarrow> Some v | _ \<Rightarrow> None)"

lemma exactly_get_put:
  "exactly (get_block_bytes (put_block b)) = Some b"
  "exactly (get_proof_bytes (put_proof p)) = Some p"
  "exactly (get_doc (put_doc d)) = Some d"
  using get_put_block [of b "[]"] get_put_proof [of p "[]"] get_put_doc [of d "[]"]
  by (simp_all add: exactly_def)

section \<open>The demo chain\<close>

record demo_state =
  ds_header :: header
  ds_txs :: "tx list"
  ds_stakes :: "(hashval \<times> stake_doc) list"

record demo_unsealed =
  du_header :: header
  du_txs :: "tx list"
  du_stakes :: "(hashval \<times> stake_doc) list"

definition demo_root :: "(hashval \<times> stake_doc) list \<Rightarrow> hashval" where
  "demo_root k = of_nat (length k)"

definition demo_realize :: "genesis_config \<Rightarrow> nat \<Rightarrow> demo_unsealed" where
  "demo_realize g f =
     \<lparr>du_header = \<lparr>hd_network = gc_network g, hd_height = 0, hd_fee_multiplier = gc_init_fee_multiplier g,
        hd_stakes_hash = demo_root (gc_stakes g), hd_rest = []\<rparr>,
      du_txs = [], du_stakes = gc_stakes g\<rparr>"

definition demo_apply_block :: "block \<Rightarrow> demo_state \<Rightarrow> nat \<Rightarrow> demo_state res \<times> nat" where
  "demo_apply_block b s f =
     (if height_of b = hd_height (ds_header s) + 1
      then (Ok \<lparr>ds_header = b_header b, ds_txs = transactions b, ds_stakes = ds_stakes s\<rparr>, Suc f)
      else (Err (StfError ''wrong height''), f))"

definition demo_sig :: "pubkey \<Rightarrow> hashval \<Rightarrow> bytes" where
  "demo_sig pk h = [ucast pk, ucast h]"

definition demo :: "(nat, demo_state, demo_unsealed, (hashval \<times> stake_doc) list) ext" where
  "demo = \<lparr>
     enc_header = put_header, enc_block = put_block,
     dec_block = (\<lambda>bs. exactly (get_block_bytes bs)),
     enc_proof = put_proof, dec_proof = (\<lambda>bs. exactly (get_proof_bytes bs)),
     enc_doc = put_doc, dec_doc = (\<lambda>bs. exactly (get_doc bs)),
     enc_genesis = (\<lambda>g. put_nat (net_code (gc_network g))),
     hash_single = (\<lambda>bs. of_nat (length bs)),
     hex_encode = (\<lambda>h. replicate (unat h) (CHR ''x'')),
     txhash_to_string = (\<lambda>h. replicate (unat h) (CHR ''x'')),
     txhash_parse = (\<lambda>s. Some (of_nat (length s))),
     header_hash = (\<lambda>h. ucast (hd_height h)),
     hash_nosigs = (\<lambda>t. of_nat (length (tx_rest t))),
     weight = (\<lambda>t. of_nat (length (tx_data t))),
     epoch = (\<lambda>h. h div 200000),
     verify = (\<lambda>pk h s. s = demo_sig pk h),
     stakes_new = [], add_stake = (\<lambda>t d k. AList.update t d k),
     unlock_old = (\<lambda>e k. filter (\<lambda>(t, d). e < sd_e_post_end d) k),
     pre_tip911 = map (\<lambda>(t, d). (put_word t, put_doc d)),
     root_hash = demo_root, stakes_iter = (\<lambda>k. k),
     ss_votes = (\<lambda>k e pk. sum_list (map (\<lambda>(t, d). if sd_pubkey d = pk \<and> sd_e_start d \<le> e \<and>
       e < sd_e_post_end d then sd_syms_staked d else 0) k)),
     ss_total_votes = (\<lambda>k e. sum_list (map (\<lambda>(t, d). if sd_e_start d \<le> e \<and>
       e < sd_e_post_end d then sd_syms_staked d else 0) k)),
     realize = demo_realize,
     seal = (\<lambda>p u. \<lparr>ds_header = du_header u, ds_txs = du_txs u, ds_stakes = du_stakes u\<rparr>),
     apply_tx = (\<lambda>t u. if sigs t = [] then (Err (StfError ''unsigned''), u)
       else (Ok (), u\<lparr>du_txs := du_txs u @ [t]\<rparr>)),
     state_header = ds_header, raw_stakes = ds_stakes,
     stf_apply_block = demo_apply_block,
     from_block = (\<lambda>b k f. \<lparr>ds_header = b_header b, ds_txs = transactions b, ds_stakes = k\<rparr>),
     next_unsealed = (\<lambda>s. \<lparr>du_header = (ds_header s)\<lparr>hd_height := hd_height (ds_header s) + 1\<rparr>,
       du_txs = [], du_stakes = ds_stakes s\<rparr>),
     to_block = (\<lambda>s. \<lparr>b_header = ds_header s, transactions = ds_txs s, b_proposer_action = None\<rparr>),
     state_is_empty = (\<lambda>s. ds_txs s = []),
     forest_flush = (\<lambda>f. f),
     sql_bindable = (\<lambda>h. h < 9223372036854775808), sql_fault = (\<lambda>b n. False),
     evict_block = (\<lambda>c. c)\<rparr>"

text \<open>Its fields, one by one.\<close>

lemma demo_fields [simp]:
  "enc_header demo = put_header"
  "enc_block demo = put_block"
  "dec_block demo = (\<lambda>bs. exactly (get_block_bytes bs))"
  "enc_proof demo = put_proof"
  "dec_proof demo = (\<lambda>bs. exactly (get_proof_bytes bs))"
  "enc_doc demo = put_doc"
  "dec_doc demo = (\<lambda>bs. exactly (get_doc bs))"
  "enc_genesis demo = (\<lambda>g. put_nat (net_code (gc_network g)))"
  "hash_single demo = (\<lambda>bs. of_nat (length bs))"
  "hex_encode demo = (\<lambda>h. replicate (unat h) (CHR ''x''))"
  "txhash_to_string demo = (\<lambda>h. replicate (unat h) (CHR ''x''))"
  "txhash_parse demo = (\<lambda>s. Some (of_nat (length s)))"
  "header_hash demo = (\<lambda>h. ucast (hd_height h))"
  "hash_nosigs demo = (\<lambda>t. of_nat (length (tx_rest t)))"
  "weight demo = (\<lambda>t. of_nat (length (tx_data t)))"
  "epoch demo = (\<lambda>h. h div 200000)"
  "verify demo = (\<lambda>pk h s. s = demo_sig pk h)"
  "stakes_new demo = []"
  "add_stake demo = (\<lambda>t d k. AList.update t d k)"
  "unlock_old demo = (\<lambda>e k. filter (\<lambda>(t, d). e < sd_e_post_end d) k)"
  "pre_tip911 demo = map (\<lambda>(t, d). (put_word t, put_doc d))"
  "root_hash demo = demo_root"
  "stakes_iter demo = (\<lambda>k. k)"
  "ss_votes demo = (\<lambda>k e pk. sum_list (map (\<lambda>(t, d). if sd_pubkey d = pk \<and> sd_e_start d \<le> e \<and> e < sd_e_post_end d then sd_syms_staked d else 0) k))"
  "ss_total_votes demo = (\<lambda>k e. sum_list (map (\<lambda>(t, d). if sd_e_start d \<le> e \<and> e < sd_e_post_end d then sd_syms_staked d else 0) k))"
  "realize demo = demo_realize"
  "seal demo = (\<lambda>p u. \<lparr>ds_header = du_header u, ds_txs = du_txs u, ds_stakes = du_stakes u\<rparr>)"
  "apply_tx demo = (\<lambda>t u. if sigs t = [] then (Err (StfError ''unsigned''), u) else (Ok (), u\<lparr>du_txs := du_txs u @ [t]\<rparr>))"
  "state_header demo = ds_header"
  "raw_stakes demo = ds_stakes"
  "stf_apply_block demo = demo_apply_block"
  "from_block demo = (\<lambda>b k f. \<lparr>ds_header = b_header b, ds_txs = transactions b, ds_stakes = k\<rparr>)"
  "next_unsealed demo = (\<lambda>s. \<lparr>du_header = (ds_header s)\<lparr>hd_height := hd_height (ds_header s) + 1\<rparr>, du_txs = [], du_stakes = ds_stakes s\<rparr>)"
  "to_block demo = (\<lambda>s. \<lparr>b_header = ds_header s, transactions = ds_txs s, b_proposer_action = None\<rparr>)"
  "state_is_empty demo = (\<lambda>s. ds_txs s = [])"
  "forest_flush demo = (\<lambda>f. f)"
  "sql_bindable demo = (\<lambda>h. h < 9223372036854775808)"
  "sql_fault demo = (\<lambda>b n. False)"
  "evict_block demo = (\<lambda>c. c)"
  by (simp_all add: demo_def)

lemma demo_dec [simp]:
  "exactly (get_block_bytes (put_block b)) = Some b"
  "exactly (get_proof_bytes (put_proof p)) = Some p"
  "exactly (get_doc (put_doc d)) = Some d"
  by (rule exactly_get_put)+

lemma demo_laws:
  "codec_ok demo" "apply_tx_atomic demo" "nosigs_ok demo" "stf_header_ok demo" "sql_range_ok demo"
  by (simp_all add: codec_ok_def apply_tx_atomic_def nosigs_ok_def
      stf_header_ok_def demo_realize_def sql_range_ok_def word_less_nat_alt)

end
