(* ===== verification/Mempool.thy ===== *)
theory Mempool
  imports Demo
begin

text \<open>
  \<^verbatim>\<open>src/storage/mempool.rs\<close>: the provisional state that collects transactions for the next
  block.  The record \<open>mempool\<close> is \<^verbatim>\<open>struct Mempool\<close>; each method is a definition over it.
  \<open>mp_run\<close> is the set of mempools a sequence of calls can reach, with the transactions
  accepted since the last rebase as history.
\<close>

section \<open>State and operations\<close>

definition WEIGHT_LIMIT :: u128 where
  "WEIGHT_LIMIT = 10000000"

record 'u mempool =
  provisional_state :: 'u
  last_rebase :: 'u
  txx_in_state :: "hashval set"
  next_weight :: u128

definition mempool_new :: "'u \<Rightarrow> 'u mempool" where
  "mempool_new state =
     \<lparr>provisional_state = state, last_rebase = state, txx_in_state = {}, next_weight = 0\<rparr>"

definition to_state :: "'u mempool \<Rightarrow> 'u" where
  "to_state m = provisional_state m"

definition apply_transaction ::
    "('f, 's, 'u, 'k, 'x) ext_scheme \<Rightarrow> tx \<Rightarrow> 'u mempool \<Rightarrow> unit res \<times> 'u mempool" where
  "apply_transaction E t m =
     (if next_weight m < WEIGHT_LIMIT then
        if hash_nosigs E t \<in> txx_in_state m then (Err DuplicateTx, m)
        else
          let m1 = m\<lparr>txx_in_state := insert (hash_nosigs E t) (txx_in_state m)\<rparr> in
          case apply_tx E t (provisional_state m1) of
            (Ok _, u) \<Rightarrow>
              let m2 = m1\<lparr>provisional_state := u\<rparr> in
              (case checked_add (next_weight m2) (weight E t) of
                 Ok w \<Rightarrow> (Ok (), m2\<lparr>next_weight := w\<rparr>)
               | Err e \<Rightarrow> (Err e, m2)
               | Panic p \<Rightarrow> (Panic p, m2))
          | (Err e, u) \<Rightarrow> (Err e, m1\<lparr>provisional_state := u\<rparr>)
          | (Panic p, u) \<Rightarrow> (Panic p, m1\<lparr>provisional_state := u\<rparr>)
      else (Err MempoolFull, m))"

text \<open>
  What a rebase reports: the number of transactions it throws away, if the current state
  is not empty.
\<close>

definition rebase_dropped :: "('f, 's, 'u, 'k, 'x) ext_scheme \<Rightarrow> 'u mempool \<Rightarrow> nat option" where
  "rebase_dropped E m =
     (let current_sealed = seal E None (provisional_state m) in
      if \<not> state_is_empty E current_sealed
      then Some (length (transactions (to_block E current_sealed))) else None)"

definition rebase :: "('f, 's, 'u, 'k, 'x) ext_scheme \<Rightarrow> 's \<Rightarrow> 'u mempool \<Rightarrow> 'u mempool" where
  "rebase E state m =
     (let next_state = next_unsealed E state in
      m\<lparr>provisional_state := next_state, last_rebase := next_state,
        txx_in_state := {}, next_weight := 0\<rparr>)"

definition lookup_recent_tx :: "'u mempool \<Rightarrow> hashval \<Rightarrow> tx option" where
  "lookup_recent_tx m h = None"

section \<open>One call\<close>

text \<open>Every outcome of a call, with the state it leaves.\<close>

lemma apply_transaction_cases:
  obtains
    (full) "WEIGHT_LIMIT \<le> next_weight m" and "apply_transaction E t m = (Err MempoolFull, m)"
  | (duplicate) "next_weight m < WEIGHT_LIMIT" and "hash_nosigs E t \<in> txx_in_state m"
      and "apply_transaction E t m = (Err DuplicateTx, m)"
  | (invalid) e u where "next_weight m < WEIGHT_LIMIT" and "hash_nosigs E t \<notin> txx_in_state m"
      and "apply_tx E t (provisional_state m) = (Err e, u)"
      and "apply_transaction E t m =
        (Err e, m\<lparr>txx_in_state := insert (hash_nosigs E t) (txx_in_state m), provisional_state := u\<rparr>)"
  | (accepted) u w where "next_weight m < WEIGHT_LIMIT" and "hash_nosigs E t \<notin> txx_in_state m"
      and "apply_tx E t (provisional_state m) = (Ok (), u)"
      and "checked_add (next_weight m) (weight E t) = Ok w"
      and "apply_transaction E t m =
        (Ok (), m\<lparr>txx_in_state := insert (hash_nosigs E t) (txx_in_state m), provisional_state := u,
                  next_weight := w\<rparr>)"
  | (panics) p m' where "next_weight m < WEIGHT_LIMIT" and "hash_nosigs E t \<notin> txx_in_state m"
      and "apply_transaction E t m = (Panic p, m')"
proof (cases "next_weight m < WEIGHT_LIMIT")
  case False
  then show ?thesis by (intro full) (auto simp: apply_transaction_def)
next
  case lt: True
  show ?thesis
  proof (cases "hash_nosigs E t \<in> txx_in_state m")
    case True
    with lt show ?thesis by (intro duplicate) (auto simp: apply_transaction_def)
  next
    case new: False
    obtain r u where r: "apply_tx E t (provisional_state m) = (r, u)" by fastforce
    show ?thesis
    proof (cases r)
      case (Ok v)
      with r lt new show ?thesis
        by (cases "checked_add (next_weight m) (weight E t)")
          (auto intro: accepted panics simp: apply_transaction_def Let_def)
    next
      case (Err e)
      with r lt new show ?thesis
        by (intro invalid) (auto simp: apply_transaction_def Let_def)
    next
      case (Panic p)
      with r lt new show ?thesis
        by (intro panics) (auto simp: apply_transaction_def Let_def)
    qed
  qed
qed

lemma txx_mono:
  "apply_transaction E t m = (r, m') \<Longrightarrow> txx_in_state m \<subseteq> txx_in_state m'"
  by (auto simp: apply_transaction_def Let_def split: if_splits res.splits prod.splits)

lemma apply_transaction_last_rebase:
  "apply_transaction E t m = (r, m') \<Longrightarrow> last_rebase m' = last_rebase m"
  by (auto simp: apply_transaction_def Let_def split: if_splits res.splits prod.splits)

text \<open>A transaction the state machine has rejected once is remembered as if it were in the state.\<close>

lemma rejected_is_remembered:
  assumes "apply_transaction E t m = (Err e, m')" and "e \<noteq> MempoolFull"
  shows "hash_nosigs E t \<in> txx_in_state m'"
  using assms by (cases rule: apply_transaction_cases [of m E t]) auto

lemma rejected_again:
  assumes "hash_nosigs E t \<in> txx_in_state m"
  shows "fst (apply_transaction E t m) \<in> {Err DuplicateTx, Err MempoolFull}"
  using assms by (auto simp: apply_transaction_def)

section \<open>Runs\<close>

text \<open>
  \<open>mp_run E base txs m\<close>: calls that did not abort the process have led to \<open>m\<close>; \<open>base\<close>
  is the state of the last rebase and \<open>txs\<close> the transactions accepted since, oldest first.
\<close>

inductive mp_run ::
    "('f, 's, 'u, 'k, 'x) ext_scheme \<Rightarrow> 'u \<Rightarrow> tx list \<Rightarrow> 'u mempool \<Rightarrow> bool" for E where
  new: "mp_run E u [] (mempool_new u)"
| accept: "mp_run E u txs m \<Longrightarrow> apply_transaction E t m = (Ok (), m') \<Longrightarrow>
    mp_run E u (txs @ [t]) m'"
| reject: "mp_run E u txs m \<Longrightarrow> apply_transaction E t m = (Err e, m') \<Longrightarrow> mp_run E u txs m'"
| rebased: "mp_run E u txs m \<Longrightarrow> mp_run E (next_unsealed E s) [] (rebase E s m)"

text \<open>Applying transactions to a state one after the other, each of which must succeed.\<close>

fun replay :: "('f, 's, 'u, 'k, 'x) ext_scheme \<Rightarrow> 'u \<Rightarrow> tx list \<Rightarrow> 'u option" where
  "replay E u [] = Some u"
| "replay E u (t # ts) =
     (case apply_tx E t u of (Ok _, u') \<Rightarrow> replay E u' ts | _ \<Rightarrow> None)"

lemma replay_append:
  "replay E u (xs @ ys) = (case replay E u xs of None \<Rightarrow> None | Some u' \<Rightarrow> replay E u' ys)"
  by (induction xs arbitrary: u) (auto split: prod.splits res.splits)

text \<open>
  The invariant of the mempool, with the accepted transactions as a ghost argument: the
  provisional state is the last rebase with exactly the accepted transactions applied, their
  hashes are distinct and remembered, and \<open>next_weight\<close> is their total weight, which only
  the last of them may have carried past the limit.
\<close>

definition mempool_inv ::
    "('f, 's, 'u, 'k, 'x) ext_scheme \<Rightarrow> 'u \<Rightarrow> tx list \<Rightarrow> 'u mempool \<Rightarrow> bool" where
  "mempool_inv E u txs m \<longleftrightarrow>
     last_rebase m = u \<and>
     replay E u txs = Some (provisional_state m) \<and>
     distinct (map (hash_nosigs E) txs) \<and>
     hash_nosigs E ` set txs \<subseteq> txx_in_state m \<and>
     unat (next_weight m) = (\<Sum>t\<leftarrow>txs. unat (weight E t)) \<and>
     (txs \<noteq> [] \<longrightarrow> (\<Sum>t\<leftarrow>butlast txs. unat (weight E t)) < unat WEIGHT_LIMIT)"

lemma mempool_inv_new: "mempool_inv E u [] (mempool_new u)"
  by (simp add: mempool_inv_def mempool_new_def)

lemma mempool_inv_rebase: "mempool_inv E (next_unsealed E s) [] (rebase E s m)"
  by (simp add: mempool_inv_def rebase_def Let_def)

lemma mempool_inv_accept:
  assumes "mempool_inv E u txs m" and "apply_transaction E t m = (Ok (), m')"
  shows "mempool_inv E u (txs @ [t]) m'"
  using assms
  by (cases rule: apply_transaction_cases [of m E t])
    (auto simp: mempool_inv_def replay_append checked_add_Ok_iff word_less_nat_alt)

lemma mempool_inv_reject:
  assumes "apply_tx_atomic E" and "mempool_inv E u txs m"
    and "apply_transaction E t m = (Err e, m')"
  shows "mempool_inv E u txs m'"
  using assms(3)
proof (cases rule: apply_transaction_cases [of m E t])
  case (invalid e' u')
  with assms(1) have "u' = provisional_state m"
    by (metis apply_tx_atomic_def fst_conv snd_conv)
  with invalid assms(2,3) show ?thesis by (auto simp: mempool_inv_def)
qed (use assms in auto)

lemma mp_run_inv:
  assumes "apply_tx_atomic E" and "mp_run E u txs m"
  shows "mempool_inv E u txs m"
  using assms(2)
  by (induction rule: mp_run.induct)
    (auto intro: mempool_inv_new mempool_inv_accept mempool_inv_rebase mempool_inv_reject [OF assms(1)])

section \<open>Submissions\<close>

text \<open>
  A sequence of submissions with no rebase between them: the transactions that were accepted
  and the mempool they leave.  An abort ends it.
\<close>

fun submit_all ::
    "('f, 's, 'u, 'k, 'x) ext_scheme \<Rightarrow> tx list \<Rightarrow> 'u mempool \<Rightarrow> tx list \<times> 'u mempool" where
  "submit_all E [] m = ([], m)"
| "submit_all E (t # ts) m =
     (case apply_transaction E t m of
        (Ok _, m) \<Rightarrow> (let (accepted, m) = submit_all E ts m in (t # accepted, m))
      | (Err _, m) \<Rightarrow> submit_all E ts m
      | (Panic _, m) \<Rightarrow> ([], m))"

text \<open>A remembered hash stays remembered, and nothing with that hash is accepted.\<close>

lemma submit_all_remembers:
  "h \<in> txx_in_state m \<Longrightarrow> submit_all E ts m = (accepted, m') \<Longrightarrow>
   h \<in> txx_in_state m' \<and> h \<notin> hash_nosigs E ` set accepted"
proof (induction ts arbitrary: m accepted m')
  case (Cons t ts)
  obtain r m1 where r: "apply_transaction E t m = (r, m1)" by fastforce
  have h: "h \<in> txx_in_state m1" using txx_mono [OF r] Cons.prems(1) by blast
  have new: "hash_nosigs E t \<noteq> h" if "r = Ok u" for u
    using r that Cons.prems(1) by (cases rule: apply_transaction_cases [of m E t]) auto
  obtain accepted1 m2 where rest: "submit_all E ts m1 = (accepted1, m2)" by fastforce
  from Cons.IH [OF h rest] h new r rest Cons.prems(2) show ?case by (cases r) auto
qed simp

lemma remembered_refused:
  assumes "hash_nosigs E t \<in> txx_in_state m"
  shows "apply_transaction E t m =
    (Err (if next_weight m < WEIGHT_LIMIT then DuplicateTx else MempoolFull), m)"
  using assms by (simp add: apply_transaction_def)

text \<open>
  Rebasing empties the pool: the next submission is judged by the state machine alone, on the
  unsealed successor of the given sealed state.
\<close>

lemma rebased_submission:
  "fst (apply_transaction E t (rebase E s m)) = fst (apply_tx E t (next_unsealed E s))"
  "to_state (snd (apply_transaction E t (rebase E s m))) = snd (apply_tx E t (next_unsealed E s))"
proof -
  have "checked_add 0 (weight E t) = Ok (weight E t)" by (simp add: checked_add_Ok_iff)
  then show "fst (apply_transaction E t (rebase E s m)) = fst (apply_tx E t (next_unsealed E s))"
    and "to_state (snd (apply_transaction E t (rebase E s m))) = snd (apply_tx E t (next_unsealed E s))"
    by (auto simp: rebase_def to_state_def apply_transaction_def WEIGHT_LIMIT_def Let_def
        split: res.splits prod.splits)
qed

section \<open>Properties\<close>

text \<open>C6: After any sequence of submissions and rebases the provisional state is exactly the state of
  the last rebase with the accepted transactions applied in order; no transaction hash is
  accepted twice between two rebases, \<^verbatim>\<open>next_weight\<close> is the total weight of the accepted
  transactions, and all but the last of them weigh less than the limit.\<close>

theorem mempool_replays_accepted:
  assumes "apply_tx_atomic E" and "mp_run E u txs m"
  shows "replay E u txs = Some (to_state m) \<and> last_rebase m = u \<and>
    distinct (map (hash_nosigs E) txs) \<and> hash_nosigs E ` set txs \<subseteq> txx_in_state m \<and>
    unat (next_weight m) = (\<Sum>t\<leftarrow>txs. unat (weight E t)) \<and>
    (txs \<noteq> [] \<longrightarrow> (\<Sum>t\<leftarrow>butlast txs. unat (weight E t)) < unat WEIGHT_LIMIT)"
  using mp_run_inv [OF assms] by (simp add: mempool_inv_def to_state_def)

text \<open>C15: A transaction that the state machine rejects blocks every other transaction with the same
  signature-free hash, for example the same transaction with correct signatures: the hash is
  recorded before the transaction is checked and not forgotten on failure.  Whatever is submitted
  in between, until the next rebase none with that hash is accepted: each is refused as a
  duplicate, or, once the mempool is full, as any other is.  After a rebase it is again the state
  machine that decides.\<close>

theorem rejected_tx_poisons_hash:
  assumes "apply_tx E bad (provisional_state m) = (Err e, u)" and "next_weight m < WEIGHT_LIMIT"
    and "submit_all E ts (snd (apply_transaction E bad m)) = (accepted, m')"
    and "hash_nosigs E good = hash_nosigs E bad"
  shows "apply_transaction E good m' =
      (Err (if next_weight m' < WEIGHT_LIMIT then DuplicateTx else MempoolFull), m') \<and>
    hash_nosigs E good \<notin> hash_nosigs E ` set accepted \<and>
    fst (apply_transaction E good (rebase E st m')) = fst (apply_tx E good (next_unsealed E st))"
proof -
  have "hash_nosigs E bad \<in> txx_in_state (snd (apply_transaction E bad m))"
    using assms(1,2) by (auto simp: apply_transaction_def Let_def)
  from submit_all_remembers [OF this assms(3)] assms(4)
  have "hash_nosigs E good \<in> txx_in_state m'" and "hash_nosigs E good \<notin> hash_nosigs E ` set accepted"
    by simp_all
  with remembered_refused [of E good m'] rebased_submission [of E good st m'] show ?thesis by simp
qed

section \<open>Witnesses\<close>

definition demo_pool :: "demo_unsealed mempool" where
  "demo_pool = mempool_new \<lparr>du_header = \<lparr>hd_network = Custom02, hd_height = 1, hd_fee_multiplier = 100,
     hd_stakes_hash = 0, hd_rest = []\<rparr>, du_txs = [], du_stakes = []\<rparr>"

definition demo_tx :: "bytes list \<Rightarrow> tx" where
  "demo_tx ss = \<lparr>kind = OtherKind 0, outputs = [], tx_data = [1, 2, 3], sigs = ss, tx_rest = [9]\<rparr>"

lemma demo_pool_run:
  "mp_run demo (provisional_state demo_pool) [demo_tx [[1]]] (snd (apply_transaction demo (demo_tx [[1]]) demo_pool))"
proof -
  have "mp_run demo (provisional_state demo_pool) ([] @ [demo_tx [[1]]])
    (snd (apply_transaction demo (demo_tx [[1]]) demo_pool))"
  proof (rule mp_run.accept)
    show "mp_run demo (provisional_state demo_pool) [] demo_pool"
      unfolding demo_pool_def by (simp add: mempool_new_def mp_run.new [unfolded mempool_new_def])
    show "apply_transaction demo (demo_tx [[1]]) demo_pool =
      (Ok (), snd (apply_transaction demo (demo_tx [[1]]) demo_pool))"
      by (rule prod_eqI) (simp_all add: apply_transaction_def demo_pool_def mempool_new_def
          demo_tx_def WEIGHT_LIMIT_def checked_add_def)
  qed
  then show ?thesis by simp
qed

theorem mempool_replays_accepted_witness:
  "replay demo (provisional_state demo_pool) [demo_tx [[1]]] =
    Some (to_state (snd (apply_transaction demo (demo_tx [[1]]) demo_pool)))"
  using mempool_replays_accepted [OF demo_laws(2) demo_pool_run] by blast

text \<open>An unsigned copy, then another transaction, then the signed one.\<close>

definition demo_other_tx :: tx where
  "demo_other_tx = (demo_tx [[1]])\<lparr>tx_rest := [9, 9]\<rparr>"

theorem rejected_tx_poisons_hash_witness:
  "fst (apply_transaction demo (demo_tx [[1]]) (snd (submit_all demo [demo_other_tx]
     (snd (apply_transaction demo (demo_tx []) demo_pool))))) = Err DuplicateTx \<and>
   fst (submit_all demo [demo_other_tx] (snd (apply_transaction demo (demo_tx []) demo_pool))) =
     [demo_other_tx]"
proof -
  let ?m = "snd (apply_transaction demo (demo_tx []) demo_pool)"
  have bad: "apply_tx demo (demo_tx []) (provisional_state demo_pool) =
      (Err (StfError ''unsigned''), provisional_state demo_pool)"
    and room: "next_weight demo_pool < WEIGHT_LIMIT"
    and same: "hash_nosigs demo (demo_tx [[1]]) = hash_nosigs demo (demo_tx [])"
    by (simp_all add: demo_tx_def demo_pool_def mempool_new_def WEIGHT_LIMIT_def)
  have "fst (submit_all demo [demo_other_tx] ?m) = [demo_other_tx]"
    and "next_weight (snd (submit_all demo [demo_other_tx] ?m)) < WEIGHT_LIMIT"
    by (simp_all add: apply_transaction_def demo_other_tx_def demo_tx_def demo_pool_def mempool_new_def
        WEIGHT_LIMIT_def checked_add_def)
  moreover from rejected_tx_poisons_hash [OF bad room _ same, of "[demo_other_tx]"]
  have "apply_transaction demo (demo_tx [[1]]) (snd (submit_all demo [demo_other_tx] ?m)) =
      (Err (if next_weight (snd (submit_all demo [demo_other_tx] ?m)) < WEIGHT_LIMIT
            then DuplicateTx else MempoolFull), snd (submit_all demo [demo_other_tx] ?m))"
    by (metis prod.collapse)
  ultimately show ?thesis by simp
qed

end
