(* ===== verification/Quorum.thy ===== *)
theory Quorum
  imports Demo
begin

text \<open>
  The consensus-proof check of \<^verbatim>\<open>Storage::apply_block\<close> (\<^verbatim>\<open>src/storage/storage.rs\<close>, lines
  277-300): the loop over the stake documents of the highest state that adds up all votes and
  the votes that are present, and the two-thirds comparison.

  The loop adds the \<^emph>\<open>running total\<close> to \<^verbatim>\<open>present_votes\<close> where the document's own
  stake is meant (line 288).  \<open>present_spec\<close> is the sum that is meant; the lemmas say what
  the code computes, that it never rejects a proof that carries more than two thirds of the
  stake, and that a single signature can be enough.
\<close>

section \<open>The code\<close>

text \<open>Whether a document votes on a block, and whether the proof has its valid signature.\<close>

definition is_active :: "('f, 's, 'u, 'k, 'x) ext_scheme \<Rightarrow> header \<Rightarrow> stake_doc \<Rightarrow> bool" where
  "is_active E hdr sd \<longleftrightarrow>
     sd_e_start sd \<le> epoch E (hd_height hdr) \<and> epoch E (hd_height hdr) < sd_e_post_end sd"

definition has_signed ::
    "('f, 's, 'u, 'k, 'x) ext_scheme \<Rightarrow> header \<Rightarrow> cproof \<Rightarrow> stake_doc \<Rightarrow> bool" where
  "has_signed E hdr cp sd \<longleftrightarrow>
     (case map_of cp (sd_pubkey sd) of
        Some v \<Rightarrow> verify E (sd_pubkey sd) (header_hash E hdr) v
      | None \<Rightarrow> False)"

fun tally ::
    "('f, 's, 'u, 'k, 'x) ext_scheme \<Rightarrow> header \<Rightarrow> cproof \<Rightarrow> (bytes \<times> bytes) list \<Rightarrow>
     u128 \<Rightarrow> u128 \<Rightarrow> (u128 \<times> u128) res" where
  "tally E hdr cp [] total_votes present_votes = Ok (total_votes, present_votes)"
| "tally E hdr cp (entry # rest) total_votes present_votes =
     (case dec_doc E (snd entry) of
        None \<Rightarrow> Err DecodeError
      | Some sd \<Rightarrow>
          if is_active E hdr sd then
            bind_res (checked_add total_votes (sd_syms_staked sd)) (\<lambda>total_votes.
              if has_signed E hdr cp sd then
                bind_res (checked_add present_votes total_votes) (\<lambda>present_votes.
                  tally E hdr cp rest total_votes present_votes)
              else tally E hdr cp rest total_votes present_votes)
          else tally E hdr cp rest total_votes present_votes)"

definition check_quorum ::
    "('f, 's, 'u, 'k, 'x) ext_scheme \<Rightarrow> header \<Rightarrow> cproof \<Rightarrow> (bytes \<times> bytes) list \<Rightarrow> unit res" where
  "check_quorum E hdr cp docs =
     bind_res (tally E hdr cp docs 0 0) (\<lambda>(total_votes, present_votes).
       bind_res (checked_mul 2 total_votes) (\<lambda>doubled.
         if present_votes \<le> doubled div 3
         then Err (InsufficientVotes (hd_height hdr) present_votes total_votes)
         else Ok ()))"

section \<open>What is meant\<close>

fun decode_docs ::
    "('f, 's, 'u, 'k, 'x) ext_scheme \<Rightarrow> (bytes \<times> bytes) list \<Rightarrow> stake_doc list option" where
  "decode_docs E [] = Some []"
| "decode_docs E (x # xs) =
     (case dec_doc E (snd x) of
        None \<Rightarrow> None
      | Some sd \<Rightarrow> (case decode_docs E xs of None \<Rightarrow> None | Some sds \<Rightarrow> Some (sd # sds)))"

definition stake_sum :: "stake_doc list \<Rightarrow> nat" where
  "stake_sum sds = (\<Sum>sd\<leftarrow>sds. unat (sd_syms_staked sd))"

definition total_spec :: "('f, 's, 'u, 'k, 'x) ext_scheme \<Rightarrow> header \<Rightarrow> stake_doc list \<Rightarrow> nat" where
  "total_spec E hdr sds = stake_sum (filter (is_active E hdr) sds)"

definition present_spec ::
    "('f, 's, 'u, 'k, 'x) ext_scheme \<Rightarrow> header \<Rightarrow> cproof \<Rightarrow> stake_doc list \<Rightarrow> nat" where
  "present_spec E hdr cp sds =
     stake_sum (filter (\<lambda>sd. is_active E hdr sd \<and> has_signed E hdr cp sd) sds)"

text \<open>What the loop computes instead: each signer contributes the total up to and including it.\<close>

fun present_code ::
    "('f, 's, 'u, 'k, 'x) ext_scheme \<Rightarrow> header \<Rightarrow> cproof \<Rightarrow> stake_doc list \<Rightarrow> nat \<Rightarrow> nat" where
  "present_code E hdr cp [] acc = 0"
| "present_code E hdr cp (sd # sds) acc =
     (if is_active E hdr sd then
        (if has_signed E hdr cp sd then acc + unat (sd_syms_staked sd) else 0) +
        present_code E hdr cp sds (acc + unat (sd_syms_staked sd))
      else present_code E hdr cp sds acc)"

lemma stake_sum_simps [simp]:
  "stake_sum [] = 0" "stake_sum (sd # sds) = unat (sd_syms_staked sd) + stake_sum sds"
  "stake_sum (xs @ ys) = stake_sum xs + stake_sum ys"
  by (simp_all add: stake_sum_def)

lemma tally_Ok_iff:
  "tally E hdr cp docs t p = Ok (t', p') \<longleftrightarrow>
     (\<exists>sds. decode_docs E docs = Some sds \<and>
        unat t' = unat t + total_spec E hdr sds \<and>
        unat p' = unat p + present_code E hdr cp sds (unat t))"
proof (induction docs arbitrary: t p)
  case Nil
  then show ?case by (auto simp: total_spec_def word_unat_eq_iff)
next
  case (Cons x docs)
  show ?case
  proof (cases "dec_doc E (snd x)")
    case None
    then show ?thesis by simp
  next
    case (Some sd)
    show ?thesis
    proof (cases "is_active E hdr sd")
      case False
      with Some Cons show ?thesis
        by (auto simp: total_spec_def split: option.splits)
    next
      case act: True
      have step: "tally E hdr cp (x # docs) t p = Ok (t', p') \<longleftrightarrow>
        (\<exists>t1 p1. unat t1 = unat t + unat (sd_syms_staked sd) \<and>
           unat p1 = unat p + (if has_signed E hdr cp sd then unat t1 else 0) \<and>
           tally E hdr cp docs t1 p1 = Ok (t', p'))"
        using Some act
        by (auto simp: bind_res_Ok_iff checked_add_Ok_iff word_unat_eq_iff [symmetric])
      show ?thesis
      proof
        assume "tally E hdr cp (x # docs) t p = Ok (t', p')"
        then show "\<exists>sds. decode_docs E (x # docs) = Some sds \<and>
          unat t' = unat t + total_spec E hdr sds \<and>
          unat p' = unat p + present_code E hdr cp sds (unat t)"
          unfolding step using Some act by (auto simp: Cons total_spec_def)
      next
        assume "\<exists>sds. decode_docs E (x # docs) = Some sds \<and>
          unat t' = unat t + total_spec E hdr sds \<and>
          unat p' = unat p + present_code E hdr cp sds (unat t)"
        then obtain sds where sds: "decode_docs E docs = Some sds"
          and t': "unat t' = unat t + unat (sd_syms_staked sd) + total_spec E hdr sds"
          and p': "unat p' = unat p +
            (if has_signed E hdr cp sd then unat t + unat (sd_syms_staked sd) else 0) +
            present_code E hdr cp sds (unat t + unat (sd_syms_staked sd))"
          using Some act by (auto simp: total_spec_def split: option.splits if_splits)
        define t1 where "t1 = t + sd_syms_staked sd"
        define p1 where "p1 = (if has_signed E hdr cp sd then p + t1 else p)"
        have t1: "unat t1 = unat t + unat (sd_syms_staked sd)"
          using t' unat_bound [of t'] unfolding t1_def by (intro unat_add_small) simp
        have p1: "unat p1 = unat p + (if has_signed E hdr cp sd then unat t1 else 0)"
          using p' unat_bound [of p'] t1 unfolding p1_def
          by (auto simp: unat_add_small)
        have "tally E hdr cp docs t1 p1 = Ok (t', p')"
          unfolding Cons using sds t' p' t1 p1 by (auto split: if_splits)
        with t1 p1 show "tally E hdr cp (x # docs) t p = Ok (t', p')"
          unfolding step by blast
      qed
    qed
  qed
qed

section \<open>The decision\<close>

lemma check_quorum_Ok_iff:
  "check_quorum E hdr cp docs = Ok () \<longleftrightarrow>
     (\<exists>sds. decode_docs E docs = Some sds \<and>
        2 * total_spec E hdr sds < 2 ^ 128 \<and>
        present_code E hdr cp sds 0 < 2 ^ 128 \<and>
        2 * total_spec E hdr sds div 3 < present_code E hdr cp sds 0)"
proof -
  have div3: "unat (d div 3) = unat d div 3" for d :: u128
    by (simp add: unat_div)
  show ?thesis
  proof
    assume "check_quorum E hdr cp docs = Ok ()"
    then obtain t p d where "tally E hdr cp docs 0 0 = Ok (t, p)"
      and "checked_mul 2 t = Ok d" and "\<not> p \<le> d div 3"
      by (auto simp: check_quorum_def bind_res_Ok_iff split: if_splits)
    then show "\<exists>sds. decode_docs E docs = Some sds \<and> 2 * total_spec E hdr sds < 2 ^ 128 \<and>
        present_code E hdr cp sds 0 < 2 ^ 128 \<and>
        2 * total_spec E hdr sds div 3 < present_code E hdr cp sds 0"
      using unat_bound [of d] unat_bound [of p]
      by (auto simp: tally_Ok_iff checked_mul_Ok_iff word_le_nat_alt div3)
  next
    assume "\<exists>sds. decode_docs E docs = Some sds \<and> 2 * total_spec E hdr sds < 2 ^ 128 \<and>
        present_code E hdr cp sds 0 < 2 ^ 128 \<and>
        2 * total_spec E hdr sds div 3 < present_code E hdr cp sds 0"
    then obtain sds where sds: "decode_docs E docs = Some sds"
      and t2: "2 * total_spec E hdr sds < 2 ^ 128" and p: "present_code E hdr cp sds 0 < 2 ^ 128"
      and lt: "2 * total_spec E hdr sds div 3 < present_code E hdr cp sds 0"
      by blast
    define t p d :: u128 where "t = of_nat (total_spec E hdr sds)"
      and "p = of_nat (present_code E hdr cp sds 0)" and "d = of_nat (2 * total_spec E hdr sds)"
    have "unat t = total_spec E hdr sds" unfolding t_def
      by (rule unat_of_nat_small) (use t2 in simp)
    moreover have "unat p = present_code E hdr cp sds 0" unfolding p_def
      by (rule unat_of_nat_small) (use p in simp)
    moreover have "unat d = 2 * total_spec E hdr sds" unfolding d_def
      by (rule unat_of_nat_small) (use t2 in simp)
    ultimately have "tally E hdr cp docs 0 0 = Ok (t, p)" and "checked_mul 2 t = Ok d"
      and "\<not> p \<le> d div 3"
      using sds lt by (auto simp: tally_Ok_iff checked_mul_Ok_iff word_le_nat_alt div3)
    then show "check_quorum E hdr cp docs = Ok ()"
      by (simp add: check_quorum_def)
  qed
qed

section \<open>The code's count against the one that is meant\<close>

lemma present_code_ge: "present_spec E hdr cp sds \<le> present_code E hdr cp sds acc"
proof (induction sds arbitrary: acc)
  case (Cons sd sds)
  from Cons [of acc] Cons [of "acc + unat (sd_syms_staked sd)"] show ?case
    by (auto simp: present_spec_def)
qed (simp add: present_spec_def)

lemma present_code_le:
  "present_code E hdr cp sds acc \<le> length sds * (acc + total_spec E hdr sds)"
proof (induction sds arbitrary: acc)
  case Nil
  then show ?case by simp
next
  case (Cons sd sds)
  let ?a = "acc + unat (sd_syms_staked sd)"
  show ?case
  proof (cases "is_active E hdr sd")
    case True
    then have "total_spec E hdr (sd # sds) = unat (sd_syms_staked sd) + total_spec E hdr sds"
      by (simp add: total_spec_def)
    with True Cons [of ?a] show ?thesis
      by (auto simp: algebra_simps)
  next
    case False
    then have "total_spec E hdr (sd # sds) = total_spec E hdr sds"
      by (simp add: total_spec_def)
    with False Cons [of acc] show ?thesis by simp
  qed
qed

lemma present_code_snoc:
  "present_code E hdr cp (sds @ [sd]) acc =
     present_code E hdr cp sds acc +
     (if is_active E hdr sd \<and> has_signed E hdr cp sd
      then acc + total_spec E hdr sds + unat (sd_syms_staked sd) else 0)"
  by (induction sds arbitrary: acc) (auto simp: total_spec_def)

lemma present_code_unsigned:
  "\<forall>sd\<in>set sds. \<not> (is_active E hdr sd \<and> has_signed E hdr cp sd) \<Longrightarrow>
   present_code E hdr cp sds acc = 0"
  by (induction sds arbitrary: acc) auto

text \<open>Room for the sums: what keeps both counters inside 128 bits.\<close>

definition votes_fit :: "('f, 's, 'u, 'k, 'x) ext_scheme \<Rightarrow> header \<Rightarrow> stake_doc list \<Rightarrow> bool" where
  "votes_fit E hdr sds \<longleftrightarrow> (length sds + 2) * total_spec E hdr sds < 2 ^ 128"

lemma votes_fitD:
  assumes "votes_fit E hdr sds"
  shows "2 * total_spec E hdr sds < 2 ^ 128" and "present_code E hdr cp sds 0 < 2 ^ 128"
proof -
  have "2 * total_spec E hdr sds \<le> (length sds + 2) * total_spec E hdr sds"
    by (rule mult_le_mono1) simp
  with assms show "2 * total_spec E hdr sds < 2 ^ 128"
    unfolding votes_fit_def by linarith
  have "length sds * total_spec E hdr sds \<le> (length sds + 2) * total_spec E hdr sds"
    by (rule mult_le_mono1) simp
  with assms present_code_le [of E hdr cp sds 0] show "present_code E hdr cp sds 0 < 2 ^ 128"
    unfolding votes_fit_def by simp
qed

lemma check_quorum_fit:
  assumes "decode_docs E docs = Some sds" and "votes_fit E hdr sds"
  shows "check_quorum E hdr cp docs = Ok () \<longleftrightarrow>
    2 * total_spec E hdr sds < 3 * present_code E hdr cp sds 0"
proof -
  have "2 * total_spec E hdr sds div 3 < present_code E hdr cp sds 0 \<longleftrightarrow>
    2 * total_spec E hdr sds < 3 * present_code E hdr cp sds 0" by linarith
  with assms votes_fitD(1) [OF assms(2)] votes_fitD(2) [OF assms(2), of cp] show ?thesis
    unfolding check_quorum_Ok_iff by auto
qed

lemma check_quorum_signer:
  assumes "check_quorum E hdr cp docs = Ok ()"
  obtains sds sd where "decode_docs E docs = Some sds" and "sd \<in> set sds"
    and "is_active E hdr sd" and "has_signed E hdr cp sd"
proof -
  from assms obtain sds where sds: "decode_docs E docs = Some sds"
    and "0 < present_code E hdr cp sds 0"
    unfolding check_quorum_Ok_iff by (metis gr_zeroI not_less_zero)
  then have "\<exists>sd\<in>set sds. is_active E hdr sd \<and> has_signed E hdr cp sd"
    using present_code_unsigned [of sds E hdr cp 0] by auto
  with sds that show thesis by blast
qed

section \<open>Properties\<close>

text \<open>C5: Completeness of the vote check.  When the stake documents decode and their total is far
  enough from 128 bits, a consensus proof whose valid signatures carry more than two thirds of
  the active stake is always accepted.\<close>

theorem quorum_complete:
  assumes "decode_docs E docs = Some sds" and "votes_fit E hdr sds"
    and "2 * total_spec E hdr sds < 3 * present_spec E hdr cp sds"
  shows "check_quorum E hdr cp docs = Ok ()"
  using assms present_code_ge [of E hdr cp sds 0] by (simp add: check_quorum_fit)

text \<open>C13: What acceptance does guarantee: at least one stake document that is active at the
  block's epoch has a signature in the proof that verifies against the block's header hash.\<close>

theorem quorum_needs_valid_signature:
  assumes "check_quorum E hdr cp docs = Ok ()"
  shows "\<exists>sds sd sig. decode_docs E docs = Some sds \<and> sd \<in> set sds \<and> is_active E hdr sd \<and>
    map_of cp (sd_pubkey sd) = Some sig \<and> verify E (sd_pubkey sd) (header_hash E hdr) sig"
proof -
  from check_quorum_signer [OF assms] obtain sds sd where "decode_docs E docs = Some sds"
    and "sd \<in> set sds" and "is_active E hdr sd" and "has_signed E hdr cp sd" .
  then show ?thesis by (auto simp: has_signed_def split: option.splits)
qed

text \<open>C4: The vote check is not a two-thirds check.  Because each valid signature adds the running
  total of all stake seen so far instead of the signer's own stake, a proof with the signature of
  the last active document alone is accepted, however small that document's share is.\<close>

theorem last_signer_suffices:
  assumes "decode_docs E docs = Some (sds @ [sd])" and "votes_fit E hdr (sds @ [sd])"
    and "is_active E hdr sd" and "has_signed E hdr cp sd"
    and "0 < total_spec E hdr (sds @ [sd])"
  shows "check_quorum E hdr cp docs = Ok ()"
proof -
  have "total_spec E hdr (sds @ [sd]) \<le> present_code E hdr cp (sds @ [sd]) 0"
    using assms(3,4) by (simp add: present_code_snoc total_spec_def)
  with assms(5) show ?thesis
    unfolding check_quorum_fit [OF assms(1,2)] by linarith
qed

text \<open>C12: The decision in closed form, overflow included: the check succeeds exactly when every
  document decodes, twice the total stake and the code's count of present votes both fit 128
  bits, and that count exceeds two thirds of the total rounded down.\<close>

theorem quorum_decision:
  "check_quorum E hdr cp docs = Ok () \<longleftrightarrow>
     (\<exists>sds. decode_docs E docs = Some sds \<and>
        2 * total_spec E hdr sds < 2 ^ 128 \<and>
        present_code E hdr cp sds 0 < 2 ^ 128 \<and>
        2 * total_spec E hdr sds div 3 < present_code E hdr cp sds 0)"
  by (rule check_quorum_Ok_iff)

section \<open>Witnesses\<close>

definition demo_doc :: "pubkey \<Rightarrow> u128 \<Rightarrow> stake_doc" where
  "demo_doc pk syms = \<lparr>sd_pubkey = pk, sd_e_start = 0, sd_e_post_end = 100, sd_syms_staked = syms\<rparr>"

definition demo_header :: "u64 \<Rightarrow> hashval \<Rightarrow> header" where
  "demo_header h root = \<lparr>hd_network = Custom02, hd_height = h, hd_fee_multiplier = 100,
     hd_stakes_hash = root, hd_rest = []\<rparr>"

text \<open>A whale with a million units of stake and a minnow with one.\<close>

definition demo_docs :: "(bytes \<times> bytes) list" where
  "demo_docs = [([0], put_doc (demo_doc 1 1000000)), ([1], put_doc (demo_doc 2 1))]"

lemma demo_doc_sel [simp]:
  "sd_pubkey (demo_doc pk syms) = pk" "sd_syms_staked (demo_doc pk syms) = syms"
  by (simp_all add: demo_doc_def)

lemma demo_docs_decode:
  "decode_docs demo demo_docs = Some ([demo_doc 1 1000000] @ [demo_doc 2 1])"
  by (simp add: demo_docs_def)

lemma demo_doc_active [simp]: "h < 20000000 \<Longrightarrow> is_active demo (demo_header h r) (demo_doc pk syms)"
  by (simp add: is_active_def demo_header_def demo_doc_def word_less_nat_alt unat_div)

lemma demo_doc_signed [simp]:
  "has_signed demo (demo_header h r) [(pk, demo_sig pk (ucast h))] (demo_doc pk' syms) \<longleftrightarrow> pk = pk'"
  by (auto simp: has_signed_def demo_header_def demo_doc_def)

lemma demo_votes_fit:
  "votes_fit demo (demo_header 1 r) ([demo_doc 1 1000000] @ [demo_doc 2 1])"
  by (simp add: votes_fit_def total_spec_def)

theorem quorum_complete_witness:
  "check_quorum demo (demo_header 1 0) [(1, demo_sig 1 1)] demo_docs = Ok ()"
proof (rule quorum_complete [OF demo_docs_decode demo_votes_fit])
  show "2 * total_spec demo (demo_header 1 0) ([demo_doc 1 1000000] @ [demo_doc 2 1])
    < 3 * present_spec demo (demo_header 1 0) [(1, demo_sig 1 1)] ([demo_doc 1 1000000] @ [demo_doc 2 1])"
    using demo_doc_signed [of 1 0 1] by (simp add: total_spec_def present_spec_def)
qed

theorem quorum_needs_valid_signature_witness:
  "\<exists>sds sd sig. decode_docs demo demo_docs = Some sds \<and> sd \<in> set sds \<and>
    is_active demo (demo_header 1 0) sd \<and> map_of [(1, demo_sig 1 1)] (sd_pubkey sd) = Some sig \<and>
    verify demo (sd_pubkey sd) (header_hash demo (demo_header 1 0)) sig"
  by (rule quorum_needs_valid_signature)
    (simp add: demo_docs_def check_quorum_def demo_doc_def demo_header_def is_active_def
      has_signed_def checked_add_def checked_mul_def)

text \<open>The minnow decides alone: its signature is accepted with a millionth of the stake.\<close>

theorem last_signer_suffices_witness:
  "check_quorum demo (demo_header 1 0) [(2, demo_sig 2 1)] demo_docs = Ok () \<and>
   present_spec demo (demo_header 1 0) [(2, demo_sig 2 1)] [demo_doc 1 1000000, demo_doc 2 1] = 1 \<and>
   total_spec demo (demo_header 1 0) [demo_doc 1 1000000, demo_doc 2 1] = 1000001"
proof (intro conjI)
  show "check_quorum demo (demo_header 1 0) [(2, demo_sig 2 1)] demo_docs = Ok ()"
    by (rule last_signer_suffices [OF demo_docs_decode demo_votes_fit])
      (use demo_doc_signed [of 1 0 2] in \<open>simp_all add: total_spec_def\<close>)
qed (use demo_doc_signed [of 1 0 2] in \<open>simp_all add: total_spec_def present_spec_def\<close>)

end
