(* ===== verification/Storage.thy ===== *)
theory Storage
  imports Autoretry Mempool Quorum
begin

text \<open>
  \<^verbatim>\<open>src/storage/storage.rs\<close>: everything a full node keeps.  The record \<open>tables\<close> is the
  SQLite database, \<open>storage\<close> is \<^verbatim>\<open>struct Storage\<close>; each method is a definition that takes
  the storage and returns its result with the storage it leaves.  The methods are \<^verbatim>\<open>async\<close>
  but \<^verbatim>\<open>apply_block\<close>, the only one that writes the tables, runs under a mutex, so the
  calls are steps of one sequence.  The connection pool only limits how many run at a time.

  Reads go through \<^verbatim>\<open>autoretry\<close>: \<open>retrying\<close> of one attempt, which by
  \<open>autoretry_with_faults\<close> is also the result in the presence of transient faults.
\<close>

section \<open>State\<close>

record tables =
  history :: "(u64 \<times> (bytes \<times> bytes)) list"
  consensus_proofs :: "(u64 \<times> bytes) list"
  stakes :: "(string \<times> (u64 \<times> bytes)) list"

record ('f, 'u) storage =
  db :: tables
  old_cache :: "(u64 \<times> block) list"
  forest :: 'f
  genesis :: genesis_config
  st_mempool :: "'u mempool"
  new_block_notify :: nat
  sqlite_path :: string

section \<open>Opening\<close>

text \<open>\<^verbatim>\<open>PathBuf::push\<close> with a relative path.\<close>

definition path_push :: "string \<Rightarrow> string \<Rightarrow> string" where
  "path_push p q = (if p = [] \<or> last p = CHR ''/'' then p @ q else p @ ''/'' @ q)"

definition get_indexer_path :: "('f, 'u) storage \<Rightarrow> string" where
  "get_indexer_path s = sqlite_path s @ ''.coinindex.db''"

definition init_stakes ::
    "('f, 's, 'u, 'k, 'x) ext_scheme \<Rightarrow> genesis_config \<Rightarrow> tables \<Rightarrow> tables" where
  "init_stakes E g d =
     d\<lparr>stakes := fold (\<lambda>(txhash, stake).
         table_insert_or_ignore (txhash_to_string E txhash) (0, enc_doc E stake))
       (gc_stakes g) (stakes d)\<rparr>"

text \<open>
  Opens the database and the forest found in the folder; \<open>d\<close> is what the tables hold on
  disk, with no rows when they had to be created.
\<close>

definition storage_open ::
    "('f, 's, 'u, 'k, 'x) ext_scheme \<Rightarrow> string \<Rightarrow> genesis_config \<Rightarrow> tables \<Rightarrow> 'f \<Rightarrow>
     ('f, 'u) storage" where
  "storage_open E db_folder g d f =
     (let genesis_id = hash_single E (enc_genesis E g);
          folder = path_push db_folder (hex_encode E genesis_id @ ''/'')
      in \<lparr>db = init_stakes E g d, old_cache = [], forest = f, genesis = g,
          st_mempool = mempool_new (realize E g f), new_block_notify = 0,
          sqlite_path = path_push folder ''storage.db''\<rparr>)"

section \<open>Reading\<close>

text \<open>\<^verbatim>\<open>select max(height) from history\<close>.\<close>

fun sql_max :: "u64 list \<Rightarrow> u64 option" where
  "sql_max [] = None"
| "sql_max (h # hs) = (case sql_max hs of None \<Rightarrow> Some h | Some m \<Rightarrow> Some (max h m))"

definition highest_height :: "('f, 'u) storage \<Rightarrow> u64" where
  "highest_height s =
     (case sql_max (map fst (history (db s))) of Some h \<Rightarrow> h | None \<Rightarrow> 0)"

text \<open>One statement with an integer parameter.\<close>

definition query :: "('f, 's, 'u, 'k, 'x) ext_scheme \<Rightarrow> u64 \<Rightarrow> 'a res \<Rightarrow> 'a res" where
  "query E h r = (if sql_bindable E h then r else Err SqlError)"

fun add_stake_rows ::
    "('f, 's, 'u, 'k, 'x) ext_scheme \<Rightarrow> (string \<times> (u64 \<times> bytes)) list \<Rightarrow> 'k \<Rightarrow> 'k res" where
  "add_stake_rows E [] k = Ok k"
| "add_stake_rows E ((t, (h, doc)) # rows) k =
     bind_res (option_to_res ParseError (txhash_parse E t)) (\<lambda>t.
       bind_res (option_to_res DecodeError (dec_doc E doc)) (\<lambda>sd.
         add_stake_rows E rows (add_stake E t sd k)))"

definition get_stakeset ::
    "('f, 's, 'u, 'k, 'x) ext_scheme \<Rightarrow> u64 \<Rightarrow> ('f, 'u) storage \<Rightarrow> 'k res" where
  "get_stakeset E height s = retrying (
     let genesis_stakes =
       fold (\<lambda>(t, sd). add_stake E t sd) (gc_stakes (genesis s)) (stakes_new E)
     in query E height (
       bind_res (add_stake_rows E
           (filter (\<lambda>(t, (h, doc)). h \<le> height) (stakes (db s))) genesis_stakes)
         (\<lambda>k. Ok (unlock_old E (epoch E height) k))))"

definition query_block ::
    "('f, 's, 'u, 'k, 'x) ext_scheme \<Rightarrow> u64 \<Rightarrow> tables \<Rightarrow> block option res" where
  "query_block E height d = query E height (
     case map_of (history d) height of
       None \<Rightarrow> Ok None
     | Some (_, block_blob) \<Rightarrow>
         bind_res (option_to_res DecodeError (dec_block E block_blob)) (\<lambda>b. Ok (Some b)))"

definition get_block ::
    "('f, 's, 'u, 'k, 'x) ext_scheme \<Rightarrow> u64 \<Rightarrow> ('f, 'u) storage \<Rightarrow>
     block option res \<times> ('f, 'u) storage" where
  "get_block E height s =
     (case map_of (old_cache s) height of
        Some b \<Rightarrow> (Ok (Some b), s)
      | None \<Rightarrow>
          (case retrying (query_block E height (db s)) of
             Ok (Some b) \<Rightarrow>
               (Ok (Some b), s\<lparr>old_cache := cache_put (evict_block E) height b (old_cache s)\<rparr>)
           | r \<Rightarrow> (r, s)))"

definition get_state ::
    "('f, 's, 'u, 'k, 'x) ext_scheme \<Rightarrow> u64 \<Rightarrow> ('f, 'u) storage \<Rightarrow>
     's option res \<times> ('f, 'u) storage" where
  "get_state E height s =
     bind_st (get_block E height s) (\<lambda>ob s.
       case ob of
         None \<Rightarrow> (Ok None, s)
       | Some b \<Rightarrow>
           bind_st (get_stakeset E height s, s) (\<lambda>stakeset s.
             if root_hash E stakeset = hd_stakes_hash (b_header b)
             then (Ok (Some (from_block E b stakeset (forest s))), s)
             else (Panic AssertFailed, s)))"

definition highest_state ::
    "('f, 's, 'u, 'k, 'x) ext_scheme \<Rightarrow> ('f, 'u) storage \<Rightarrow> 's res \<times> ('f, 'u) storage" where
  "highest_state E s =
     (let height = highest_height s in
      if 0 < height then
        bind_st (get_state E height s) (\<lambda>ost s.
          case ost of Some st \<Rightarrow> (Ok st, s) | None \<Rightarrow> (Panic ExpectFailed, s))
      else (Ok (seal E None (realize E (genesis s) (forest s))), s))"

definition get_consensus ::
    "('f, 's, 'u, 'k, 'x) ext_scheme \<Rightarrow> u64 \<Rightarrow> ('f, 'u) storage \<Rightarrow> cproof option res" where
  "get_consensus E height s = retrying (query E height (
     case map_of (consensus_proofs (db s)) height of
       None \<Rightarrow> Ok None
     | Some vec \<Rightarrow> bind_res (option_to_res DecodeError (dec_proof E vec)) (\<lambda>p. Ok (Some p))))"

section \<open>Applying a block\<close>

text \<open>
  The SQLite transaction.  Statement \<open>n\<close> fails on an I/O error, on a height SQLite cannot
  hold and on a primary key that exists; any failure rolls the whole transaction back.
\<close>

definition exec_insert ::
    "('f, 's, 'u, 'k, 'x) ext_scheme \<Rightarrow> block \<Rightarrow> nat \<Rightarrow> 'key \<Rightarrow> 'v \<Rightarrow> ('key \<times> 'v) list \<Rightarrow>
     ('key \<times> 'v) list res" where
  "exec_insert E blk n key v rows =
     query E (height_of blk) (if sql_fault E blk n then Err SqlError else table_insert key v rows)"

definition is_new_stake ::
    "('f, 's, 'u, 'k, 'x) ext_scheme \<Rightarrow> block \<Rightarrow> tx \<Rightarrow> stake_doc option" where
  "is_new_stake E blk txn =
     (if kind txn = Stake then
        (case dec_doc E (tx_data txn) of
           Some doc \<Rightarrow>
             if 500000 \<le> height_of blk \<or> hd_network (b_header blk) \<noteq> Mainnet then Some doc else None
         | None \<Rightarrow> None)
      else None)"

fun insert_stakes ::
    "('f, 's, 'u, 'k, 'x) ext_scheme \<Rightarrow> block \<Rightarrow> nat \<Rightarrow> tx list \<Rightarrow>
     (string \<times> (u64 \<times> bytes)) list \<Rightarrow> (string \<times> (u64 \<times> bytes)) list res" where
  "insert_stakes E blk n [] rows = Ok rows"
| "insert_stakes E blk n (txn # txns) rows =
     (case is_new_stake E blk txn of
        Some doc \<Rightarrow>
          bind_res (exec_insert E blk n (txhash_to_string E (hash_nosigs E txn))
                     (height_of blk, enc_doc E doc) rows)
            (\<lambda>rows. insert_stakes E blk (Suc n) txns rows)
      | None \<Rightarrow> insert_stakes E blk n txns rows)"

definition store_block ::
    "('f, 's, 'u, 'k, 'x) ext_scheme \<Rightarrow> block \<Rightarrow> cproof \<Rightarrow> tables \<Rightarrow> tables res" where
  "store_block E blk cproof d =
     bind_res (exec_insert E blk 0 (height_of blk)
                 (enc_header E (b_header blk), enc_block E blk) (history d)) (\<lambda>history'.
     bind_res (exec_insert E blk 1 (height_of blk) (enc_proof E cproof) (consensus_proofs d))
       (\<lambda>proofs'.
     bind_res (insert_stakes E blk 2 (transactions blk) (stakes d)) (\<lambda>stakes'.
       Ok \<lparr>history = history', consensus_proofs = proofs', stakes = stakes'\<rparr>)))"

text \<open>The checks before anything is written.\<close>

definition check_block ::
    "('f, 's, 'u, 'k, 'x) ext_scheme \<Rightarrow> block \<Rightarrow> cproof \<Rightarrow> 's \<Rightarrow> unit res" where
  "check_block E blk cproof hs =
     bind_res (checked_add (hd_height (state_header E hs)) 1) (\<lambda>expected.
       if height_of blk \<noteq> expected
       then Err (CannotApply (height_of blk) (hd_height (state_header E hs)))
       else check_quorum E (b_header blk) cproof (pre_tip911 E (raw_stakes E hs)))"

definition apply_block ::
    "('f, 's, 'u, 'k, 'x) ext_scheme \<Rightarrow> block \<Rightarrow> cproof \<Rightarrow> ('f, 'u) storage \<Rightarrow>
     unit res \<times> ('f, 'u) storage" where
  "apply_block E blk cproof s =
     bind_st (highest_state E s) (\<lambda>hs s.
     bind_st (check_block E blk cproof hs, s) (\<lambda>_ s.
     bind_st (let (r, f) = stf_apply_block E blk hs (forest s) in (r, s\<lparr>forest := f\<rparr>)) (\<lambda>_ s.
     let s = s\<lparr>forest := forest_flush E (forest s)\<rparr> in
     bind_st (store_block E blk cproof (db s), s) (\<lambda>d s.
     let s = s\<lparr>db := d\<rparr> in
     bind_st (highest_state E s) (\<lambda>next s.
       (Ok (), s\<lparr>st_mempool := rebase E next (st_mempool s),
                 new_block_notify := Suc (new_block_notify s)\<rparr>))))))"

end
