(* ===== verification/Chain_Store.thy ===== *)
theory Chain_Store
  imports Chain
begin

text \<open>
  The contract between the storage and its clients.  A client knows a store through its
  length, the block and the proof at a height, and the operation that adds a block; the laws
  say that a block is added at the end or not at all and that nothing stored ever changes.
  \<open>proof_store\<close> adds that the proofs are those of the blocks.  \<open>apply_all\<close> is the loop
  the clients share: add blocks in order, count them, stop at the first error.
\<close>

fun apply_all ::
    "(block \<Rightarrow> cproof \<Rightarrow> 'st \<Rightarrow> unit res \<times> 'st) \<Rightarrow> (block \<times> cproof) list \<Rightarrow> nat \<Rightarrow> 'st \<Rightarrow>
     nat res \<times> 'st" where
  "apply_all put [] n s = (Ok n, s)"
| "apply_all put ((b, p) # xs) n s = bind_st (put b p s) (\<lambda>_ s. apply_all put xs (Suc n) s)"

text \<open>All of \<open>xs\<close> were added, one after the other, none refused.\<close>

definition grown ::
    "(block \<Rightarrow> cproof \<Rightarrow> 'st \<Rightarrow> unit res \<times> 'st) \<Rightarrow> (block \<times> cproof) list \<Rightarrow> 'st \<Rightarrow> 'st \<Rightarrow> bool" where
  "grown put xs s s' \<longleftrightarrow> apply_all put xs 0 s = (Ok (length xs), s')"

lemma apply_all_count:
  "apply_all put xs n s = (Ok m, s') \<longleftrightarrow> m = n + length xs \<and> apply_all put xs k s = (Ok (k + length xs), s')"
proof (induction xs arbitrary: n k s)
  case (Cons x xs)
  obtain b p where x: "x = (b, p)" by fastforce
  have "apply_all put xs (Suc n) s1 = (Ok m, s') \<longleftrightarrow>
      m = Suc n + length xs \<and> apply_all put xs (Suc k) s1 = (Ok (Suc k + length xs), s')" for s1
    by (rule Cons.IH)
  with x show ?case by (auto simp: bind_st_Ok_iff)
qed auto

lemma apply_all_grown: "apply_all put xs n s = (Ok m, s') \<longleftrightarrow> m = n + length xs \<and> grown put xs s s'"
  using apply_all_count [of put xs n s m s' 0] by (simp add: grown_def)

lemma apply_all_append:
  "apply_all put (xs @ ys) n s = bind_st (apply_all put xs n s) (\<lambda>n s. apply_all put ys n s)"
proof (induction xs arbitrary: n s)
  case (Cons x xs)
  obtain b p where x: "x = (b, p)" by fastforce
  obtain r s1 where "put b p s = (r, s1)" by fastforce
  with x Cons show ?case by (cases r) simp_all
qed simp

lemma grown_Nil [simp]: "grown put [] s s' \<longleftrightarrow> s' = s"
  by (auto simp: grown_def)

lemma grown_Cons:
  "grown put ((b, p) # xs) s s' \<longleftrightarrow> (\<exists>s1. put b p s = (Ok (), s1) \<and> grown put xs s1 s')"
proof -
  have "grown put ((b, p) # xs) s s' \<longleftrightarrow>
      (\<exists>u s1. put b p s = (Ok u, s1) \<and> apply_all put xs 1 s1 = (Ok (Suc (length xs)), s'))"
    by (simp add: grown_def bind_st_Ok_iff)
  also have "\<dots> \<longleftrightarrow> (\<exists>s1. put b p s = (Ok (), s1) \<and> grown put xs s1 s')"
    using apply_all_grown [of put xs 1] by simp
  finally show ?thesis .
qed

lemma grown_append:
  "grown put (xs @ ys) s s' \<longleftrightarrow> (\<exists>s1. grown put xs s s1 \<and> grown put ys s1 s')"
proof (induction xs arbitrary: s)
  case (Cons x xs)
  obtain b p where x: "x = (b, p)" by fastforce
  have "grown put ((x # xs) @ ys) s s' \<longleftrightarrow>
      (\<exists>s1. put b p s = (Ok (), s1) \<and> (\<exists>s2. grown put xs s1 s2 \<and> grown put ys s2 s'))"
    by (simp add: x grown_Cons Cons)
  also have "\<dots> \<longleftrightarrow> (\<exists>s2. grown put (x # xs) s s2 \<and> grown put ys s2 s')"
    by (simp add: x grown_Cons) blast
  finally show ?case .
qed simp

text \<open>\<open>s'\<close> is \<open>s\<close> with the blocks \<open>bs\<close> added at the end.\<close>

definition extends ::
    "('st \<Rightarrow> nat) \<Rightarrow> ('st \<Rightarrow> u64 \<Rightarrow> block option) \<Rightarrow> block list \<Rightarrow> 'st \<Rightarrow> 'st \<Rightarrow> bool" where
  "extends tip block_of bs s s' \<longleftrightarrow>
     tip s' = tip s + length bs \<and>
     map (\<lambda>b. unat (height_of b)) bs = [Suc (tip s)..<Suc (tip s + length bs)] \<and>
     (\<forall>b\<in>set bs. block_of s' (height_of b) = Some b) \<and>
     (\<forall>h. unat h \<le> tip s \<longrightarrow> block_of s' h = block_of s h)"

locale chain_store =
  fixes inv :: "'st \<Rightarrow> bool"
    and tip :: "'st \<Rightarrow> nat"
    and block_of :: "'st \<Rightarrow> u64 \<Rightarrow> block option"
    and put :: "block \<Rightarrow> cproof \<Rightarrow> 'st \<Rightarrow> unit res \<times> 'st"
  assumes put_inv: "inv s \<Longrightarrow> put b p s = (r, s') \<Longrightarrow> inv s'"
    and put_Ok: "inv s \<Longrightarrow> put b p s = (Ok (), s') \<Longrightarrow>
      unat (height_of b) = Suc (tip s) \<and> tip s' = Suc (tip s) \<and>
      block_of s' = (block_of s)(height_of b \<mapsto> b)"
    and put_Err: "inv s \<Longrightarrow> put b p s = (Err e, s') \<Longrightarrow>
      tip s' = tip s \<and> block_of s' = block_of s"
    and put_Panic: "inv s \<Longrightarrow> put b p s = (Panic q, s') \<Longrightarrow>
      (tip s' = tip s \<and> block_of s' = block_of s) \<or>
      (unat (height_of b) = Suc (tip s) \<and> tip s' = Suc (tip s) \<and>
       block_of s' = (block_of s)(height_of b \<mapsto> b))"
    and block_of_ex: "inv s \<Longrightarrow> (\<exists>b. block_of s h = Some b) \<longleftrightarrow> 1 \<le> unat h \<and> unat h \<le> tip s"
    and block_of_height: "inv s \<Longrightarrow> block_of s h = Some b \<Longrightarrow> height_of b = h"
begin

lemma put_mono:
  assumes "inv s" and "put b p s = (r, s')" and "block_of s h = Some c"
  shows "block_of s' h = Some c"
proof -
  have le: "unat h \<le> tip s" using block_of_ex [OF assms(1), of h] assms(3) by blast
  show ?thesis
  proof (cases r)
    case (Ok u)
    with put_Ok [OF assms(1)] assms(2,3) le show ?thesis by auto
  next
    case (Err e)
    with put_Err [OF assms(1)] assms(2,3) show ?thesis by simp
  next
    case (Panic q)
    with assms(2) have "put b p s = (Panic q, s')" by simp
    from put_Panic [OF assms(1) this] assms(3) le show ?thesis by auto
  qed
qed

lemma extends_refl: "extends tip block_of [] s s"
  by (simp add: extends_def)

lemma extends_put:
  assumes "inv s" and "put b p s = (Ok (), s1)" and "extends tip block_of bs s1 s'"
  shows "extends tip block_of (b # bs) s s'"
proof -
  from put_Ok [OF assms(1,2)] have h: "unat (height_of b) = Suc (tip s)"
    and t: "tip s1 = Suc (tip s)" and blk: "block_of s1 = (block_of s)(height_of b \<mapsto> b)" by auto
  have "block_of s' (height_of b) = Some b"
    using assms(3) h t blk by (simp add: extends_def)
  moreover have "block_of s' j = block_of s j" if "unat j \<le> tip s" for j
    using assms(3) h t blk that by (auto simp: extends_def)
  moreover have "[Suc (tip s)..<Suc (tip s + length (b # bs))] =
      Suc (tip s) # [Suc (tip s1)..<Suc (tip s1 + length bs)]"
    unfolding t by (subst upt_rec) simp
  ultimately show ?thesis
    using assms(3) h t unfolding extends_def by simp
qed

lemma apply_all_inv: "inv s \<Longrightarrow> apply_all put xs n s = (r, s') \<Longrightarrow> inv s'"
proof (induction xs arbitrary: n s)
  case (Cons x xs)
  obtain b p where "x = (b, p)" by fastforce
  with Cons.prems(2) have "bind_st (put b p s) (\<lambda>_ s. apply_all put xs (Suc n) s) = (r, s')" by simp
  then show ?case
    by (cases rule: bind_st_cases) (use Cons put_inv [OF Cons.prems(1)] in blast)+
qed simp

lemma apply_all_mono:
  "inv s \<Longrightarrow> apply_all put xs n s = (r, s') \<Longrightarrow> block_of s h = Some c \<Longrightarrow> block_of s' h = Some c"
proof (induction xs arbitrary: n s)
  case (Cons x xs)
  obtain b p where "x = (b, p)" by fastforce
  with Cons.prems(2) have "bind_st (put b p s) (\<lambda>_ s. apply_all put xs (Suc n) s) = (r, s')" by simp
  then show ?case
    by (cases rule: bind_st_cases)
      (use Cons put_inv [OF Cons.prems(1)] put_mono [OF Cons.prems(1)] in blast)+
qed simp

text \<open>A run without an error has added exactly its blocks, which were the next ones in order.\<close>

lemma apply_all_Ok:
  "inv s \<Longrightarrow> apply_all put xs n s = (Ok m, s') \<Longrightarrow>
   m = n + length xs \<and> extends tip block_of (map fst xs) s s'"
proof (induction xs arbitrary: n s)
  case Nil
  then show ?case by (simp add: extends_refl)
next
  case (Cons x xs)
  obtain b p where x: "x = (b, p)" by fastforce
  with Cons.prems(2) obtain s1 where put: "put b p s = (Ok (), s1)"
    and rest: "apply_all put xs (Suc n) s1 = (Ok m, s')"
    by (auto simp: bind_st_Ok_iff)
  from Cons.IH [OF put_inv [OF Cons.prems(1) put] rest]
  have "m = Suc n + length xs" and "extends tip block_of (map fst xs) s1 s'" by simp_all
  with extends_put [OF Cons.prems(1) put] x show ?case by simp
qed

lemma grown_extends:
  "inv s \<Longrightarrow> grown put xs s s' \<Longrightarrow> inv s' \<and> extends tip block_of (map fst xs) s s'"
  using apply_all_Ok [of s xs 0 "length xs" s'] apply_all_inv [of s xs 0 "Ok (length xs)" s']
  by (auto simp: grown_def)

text \<open>A run that stops has added the blocks before the one that was refused.\<close>

lemma apply_all_Err:
  "inv s \<Longrightarrow> apply_all put xs n s = (Err e, s') \<Longrightarrow>
   \<exists>ys b p zs. xs = ys @ (b, p) # zs \<and> extends tip block_of (map fst ys) s s' \<and>
     (\<exists>s1. put b p s1 = (Err e, s'))"
proof (induction xs arbitrary: n s)
  case (Cons x xs)
  obtain b p where x: "x = (b, p)" by fastforce
  with Cons.prems(2) have "bind_st (put b p s) (\<lambda>_ s. apply_all put xs (Suc n) s) = (Err e, s')" by simp
  then show ?case
  proof (cases rule: bind_st_cases)
    case (ok u s1)
    then have put: "put b p s = (Ok (), s1)" by simp
    from Cons.IH [OF put_inv [OF Cons.prems(1) put] ok(2)] obtain ys c q zs
      where "xs = ys @ (c, q) # zs" and ext: "extends tip block_of (map fst ys) s1 s'"
        and "\<exists>s1. put c q s1 = (Err e, s')" by blast
    moreover have "extends tip block_of (map fst ((b, p) # ys)) s s'"
      using extends_put [OF Cons.prems(1) put ext] by simp
    ultimately show ?thesis using x by (metis append_Cons)
  next
    case (err e')
    then have put: "put b p s = (Err e, s')" by simp
    from put_Err [OF Cons.prems(1) put] have "extends tip block_of (map fst []) s s'"
      by (simp add: extends_def)
    with put x show ?thesis by (metis append_Nil)
  qed simp
qed simp

end

locale proof_store = chain_store inv tip block_of put
  for inv :: "'st \<Rightarrow> bool" and tip :: "'st \<Rightarrow> nat"
    and block_of :: "'st \<Rightarrow> u64 \<Rightarrow> block option"
    and put :: "block \<Rightarrow> cproof \<Rightarrow> 'st \<Rightarrow> unit res \<times> 'st" +
  fixes proof_of :: "'st \<Rightarrow> u64 \<Rightarrow> cproof option"
  assumes proof_of_ex: "inv s \<Longrightarrow> (\<exists>p. proof_of s h = Some p) \<longleftrightarrow> (\<exists>b. block_of s h = Some b)"
    and put_Ok_proof: "inv s \<Longrightarrow> put b p s = (Ok (), s') \<Longrightarrow>
      proof_of s' = (proof_of s)(height_of b \<mapsto> p)"
    and put_Err_proof: "inv s \<Longrightarrow> put b p s = (Err e, s') \<Longrightarrow> proof_of s' = proof_of s"
begin

lemma proof_of_tip: "inv s \<Longrightarrow> (\<exists>p. proof_of s h = Some p) \<longleftrightarrow> 1 \<le> unat h \<and> unat h \<le> tip s"
  using proof_of_ex block_of_ex by simp

lemma put_reads_back:
  "inv s \<Longrightarrow> put b p s = (Ok (), s') \<Longrightarrow>
   block_of s' (height_of b) = Some b \<and> proof_of s' (height_of b) = Some p"
  using put_Ok put_Ok_proof by fastforce

text \<open>A run that ends has added a first part of its blocks, each with its own proof.\<close>

lemma apply_all_ends:
  "inv s \<Longrightarrow> apply_all put xs n s = (r, s') \<Longrightarrow> \<forall>q. r \<noteq> Panic q \<Longrightarrow>
   \<exists>ys zs. xs = ys @ zs \<and> extends tip block_of (map fst ys) s s' \<and>
     (\<forall>(b, p)\<in>set ys. proof_of s' (height_of b) = Some p) \<and>
     (\<forall>h. unat h \<le> tip s \<longrightarrow> proof_of s' h = proof_of s h) \<and>
     (\<forall>m. r = Ok m \<longrightarrow> zs = [])"
proof (induction xs arbitrary: n s)
  case Nil
  then show ?case by (simp add: extends_refl)
next
  case (Cons x xs)
  obtain b p where x: "x = (b, p)" by fastforce
  with Cons.prems(2) have "bind_st (put b p s) (\<lambda>_ s. apply_all put xs (Suc n) s) = (r, s')" by simp
  then show ?case
  proof (cases rule: bind_st_cases)
    case (ok u s1)
    then have put: "put b p s = (Ok (), s1)" by simp
    note h = put_Ok [OF Cons.prems(1) put] and pr = put_Ok_proof [OF Cons.prems(1) put]
    from Cons.IH [OF put_inv [OF Cons.prems(1) put] ok(2) Cons.prems(3)] obtain ys zs
      where xs: "xs = ys @ zs" and ext: "extends tip block_of (map fst ys) s1 s'"
        and ps: "\<forall>(b, p)\<in>set ys. proof_of s' (height_of b) = Some p"
        and old: "\<forall>h. unat h \<le> tip s1 \<longrightarrow> proof_of s' h = proof_of s1 h"
        and fin: "\<forall>m. r = Ok m \<longrightarrow> zs = []" by blast
    have "extends tip block_of (map fst ((b, p) # ys)) s s'"
      using extends_put [OF Cons.prems(1) put ext] by simp
    moreover have "\<forall>(b, p)\<in>set ((b, p) # ys). proof_of s' (height_of b) = Some p"
      using ps old h pr by auto
    moreover have "\<forall>j. unat j \<le> tip s \<longrightarrow> proof_of s' j = proof_of s j"
      using old h pr by auto
    ultimately show ?thesis using xs fin x by (intro exI [of _ "(b, p) # ys"] exI [of _ zs]) simp
  next
    case (err e)
    then have put: "put b p s = (Err e, s')" by simp
    from put_Err [OF Cons.prems(1) put] put_Err_proof [OF Cons.prems(1) put] err(2)
    show ?thesis by (intro exI [of _ "[]"] exI [of _ "x # xs"]) (simp add: extends_def)
  next
    case (panic q)
    with Cons.prems(3) show ?thesis by blast
  qed
qed

end

end
