(* ===== verification/Storage_Inv.thy ===== *)
theory Storage_Inv
  imports Storage Chain_Store
begin

text \<open>
  What every operation of \<^verbatim>\<open>Storage\<close> keeps: the tables hold blocks 1 to n in order, each
  with its proof, and the block cache never disagrees with the tables.  From it follow the
  functional behaviour of the reads and of \<^verbatim>\<open>apply_block\<close> on every branch, and the
  contract \<open>chain_store\<close> on which the clients of the storage (synchronisation, RPC,
  migration, staking) rest.
\<close>

section \<open>The invariant\<close>

definition block_at :: "('f, 's, 'u, 'k, 'x) ext_scheme \<Rightarrow> tables \<Rightarrow> u64 \<Rightarrow> block option" where
  "block_at E d h =
     (case map_of (history d) h of None \<Rightarrow> None | Some (_, blob) \<Rightarrow> dec_block E blob)"

definition proof_at :: "('f, 's, 'u, 'k, 'x) ext_scheme \<Rightarrow> tables \<Rightarrow> u64 \<Rightarrow> cproof option" where
  "proof_at E d h =
     (case map_of (consensus_proofs d) h of None \<Rightarrow> None | Some blob \<Rightarrow> dec_proof E blob)"

definition history_row :: "('f, 's, 'u, 'k, 'x) ext_scheme \<Rightarrow> u64 \<times> (bytes \<times> bytes) \<Rightarrow> bool" where
  "history_row E row \<longleftrightarrow>
     (\<exists>b. row = (height_of b, (enc_header E (b_header b), enc_block E b)) \<and>
          sql_bindable E (height_of b))"

definition stake_row ::
    "('f, 's, 'u, 'k, 'x) ext_scheme \<Rightarrow> nat \<Rightarrow> string \<times> (u64 \<times> bytes) \<Rightarrow> bool" where
  "stake_row E n row \<longleftrightarrow>
     (\<exists>th h sd. row = (txhash_to_string E th, (h, enc_doc E sd)) \<and> unat h \<le> n)"

definition tables_inv :: "('f, 's, 'u, 'k, 'x) ext_scheme \<Rightarrow> tables \<Rightarrow> bool" where
  "tables_inv E d \<longleftrightarrow>
     consecutive (map fst (history d)) \<and>
     map fst (consensus_proofs d) = map fst (history d) \<and>
     list_all (history_row E) (history d) \<and>
     list_all (\<lambda>(h, p). \<exists>cp. p = enc_proof E cp) (consensus_proofs d) \<and>
     list_all (stake_row E (length (history d))) (stakes d) \<and>
     distinct (map fst (stakes d))"

definition storage_inv :: "('f, 's, 'u, 'k, 'x) ext_scheme \<Rightarrow> ('f, 'u) storage \<Rightarrow> bool" where
  "storage_inv E s \<longleftrightarrow> tables_inv E (db s) \<and> coherent (block_at E (db s)) (old_cache s)"

text \<open>What is assumed of the code outside the repository.\<close>

definition ext_ok :: "('f, 's, 'u, 'k, 'x) ext_scheme \<Rightarrow> bool" where
  "ext_ok E \<longleftrightarrow> codec_ok E \<and> evict_ok (evict_block E) \<and> stf_header_ok E"

lemma ext_okD:
  assumes "ext_ok E"
  shows "codec_ok E" and "evict_ok (evict_block E)"
    and "state_header E (from_block E b k f) = b_header b"
    and "hd_height (state_header E (seal E p (realize E g f))) = 0"
  using assms by (simp_all add: ext_ok_def stf_header_ok_def)

section \<open>The tables\<close>

lemma sql_max_props:
  "hs \<noteq> [] \<Longrightarrow> \<exists>m. sql_max hs = Some m \<and> m \<in> set hs \<and> (\<forall>h\<in>set hs. h \<le> m)"
proof (induction hs)
  case (Cons h hs)
  show ?case
  proof (cases "hs = []")
    case False
    with Cons.IH obtain m where "sql_max hs = Some m" "m \<in> set hs" "\<forall>h\<in>set hs. h \<le> m" by blast
    then show ?thesis
      by (cases "h \<le> m") (auto simp: max_def intro: order_trans dest: less_imp_le simp: not_le)
  qed simp
qed simp

lemma highest_height_eq:
  assumes "tables_inv E (db s)"
  shows "unat (highest_height s) = length (history (db s))"
proof (cases "history (db s) = []")
  case True
  then show ?thesis by (simp add: highest_height_def)
next
  case False
  let ?hs = "map fst (history (db s))"
  from False obtain m where m: "sql_max ?hs = Some m" "m \<in> set ?hs" "\<forall>h\<in>set ?hs. h \<le> m"
    using sql_max_props [of ?hs] by auto
  have cons: "consecutive ?hs" using assms by (simp add: tables_inv_def)
  from m(2) have "unat m \<le> length ?hs" by (simp only: consecutive_set [OF cons])
  moreover have "length ?hs \<le> unat m"
  proof -
    have "last ?hs \<in> set ?hs" using False by (intro last_in_set) simp
    with m(3) have "last ?hs \<le> m" by blast
    with consecutive_last [OF cons] False show ?thesis by (simp add: word_le_nat_alt)
  qed
  ultimately have "unat m = length ?hs" by simp
  with m(1) show ?thesis by (simp add: highest_height_def)
qed

lemma stored_heights:
  assumes "tables_inv E d"
  shows "h \<in> set (map fst (history d)) \<longleftrightarrow> 1 \<le> unat h \<and> unat h \<le> length (history d)"
  using assms consecutive_set [of "map fst (history d)" h] by (simp add: tables_inv_def)

lemma proof_heights: "tables_inv E d \<Longrightarrow> map fst (consensus_proofs d) = map fst (history d)"
  by (simp add: tables_inv_def)

lemma distinct_heights: "tables_inv E d \<Longrightarrow> distinct (map fst (history d))"
  by (simp add: tables_inv_def consecutive_distinct)

lemma history_lookup:
  assumes "codec_ok E" and "tables_inv E d"
  shows "block_at E d h = Some b \<longleftrightarrow>
    (h, (enc_header E (b_header b), enc_block E b)) \<in> set (history d) \<and> height_of b = h"
proof -
  have rows: "\<And>row. row \<in> set (history d) \<Longrightarrow> history_row E row"
    using assms(2) by (simp add: tables_inv_def list_all_iff)
  show ?thesis
  proof
    assume "block_at E d h = Some b"
    then obtain hdr blob where "map_of (history d) h = Some (hdr, blob)"
      and dec: "dec_block E blob = Some b"
      by (auto simp: block_at_def split: option.splits)
    then have row: "(h, (hdr, blob)) \<in> set (history d)" by (blast dest: map_of_SomeD)
    with rows dec assms(1) show
      "(h, (enc_header E (b_header b), enc_block E b)) \<in> set (history d) \<and> height_of b = h"
      by (fastforce simp: history_row_def)
  next
    assume "(h, (enc_header E (b_header b), enc_block E b)) \<in> set (history d) \<and> height_of b = h"
    with distinct_heights [OF assms(2)]
    have "map_of (history d) h = Some (enc_header E (b_header b), enc_block E b)"
      by (simp add: map_of_is_SomeI)
    with assms(1) show "block_at E d h = Some b" by (simp add: block_at_def)
  qed
qed

lemma block_at_height:
  "codec_ok E \<Longrightarrow> tables_inv E d \<Longrightarrow> block_at E d h = Some b \<Longrightarrow> height_of b = h"
  by (simp add: history_lookup)

lemma block_at_bindable:
  assumes "codec_ok E" and "tables_inv E d" and "block_at E d h = Some b"
  shows "sql_bindable E h"
proof -
  from assms have "(h, (enc_header E (b_header b), enc_block E b)) \<in> set (history d)"
    by (simp add: history_lookup)
  with assms(2) show ?thesis by (auto simp: tables_inv_def list_all_iff history_row_def)
qed

lemma block_at_ex:
  assumes "codec_ok E" and "tables_inv E d"
  shows "(\<exists>b. block_at E d h = Some b) \<longleftrightarrow> 1 \<le> unat h \<and> unat h \<le> length (history d)"
proof
  assume "\<exists>b. block_at E d h = Some b"
  then obtain b where "(h, (enc_header E (b_header b), enc_block E b)) \<in> set (history d)"
    by (auto simp: history_lookup [OF assms])
  then have "h \<in> set (map fst (history d))" by force
  then show "1 \<le> unat h \<and> unat h \<le> length (history d)"
    by (simp only: stored_heights [OF assms(2)])
next
  assume "1 \<le> unat h \<and> unat h \<le> length (history d)"
  then have "h \<in> set (map fst (history d))" by (simp only: stored_heights [OF assms(2)])
  then obtain row where row: "(h, row) \<in> set (history d)" by auto
  with assms(2) have "history_row E (h, row)" by (simp add: tables_inv_def list_all_iff)
  with row show "\<exists>b. block_at E d h = Some b"
    by (auto simp: history_row_def history_lookup [OF assms])
qed

lemma proof_at_ex:
  assumes "codec_ok E" and "tables_inv E d"
  shows "(\<exists>p. proof_at E d h = Some p) \<longleftrightarrow> 1 \<le> unat h \<and> unat h \<le> length (history d)"
proof -
  have "map fst (consensus_proofs d) = map fst (history d)"
    using assms(2) by (simp add: tables_inv_def)
  then have "set (map fst (consensus_proofs d)) = set (map fst (history d))" by (rule arg_cong)
  then have "map_of (consensus_proofs d) h \<noteq> None \<longleftrightarrow> h \<in> set (map fst (history d))"
    by (simp add: map_of_eq_None_iff)
  moreover have "\<exists>p. dec_proof E v = Some p" if "map_of (consensus_proofs d) h = Some v" for v
    using assms map_of_SomeD [OF that] by (auto simp: tables_inv_def list_all_iff)
  ultimately show ?thesis
    unfolding stored_heights [OF assms(2)] proof_at_def by (auto split: option.splits)
qed

section \<open>Opening\<close>

lemma init_stakes_rows:
  assumes "list_all (stake_row E n) rows" and "distinct (map fst rows)"
  shows "list_all (stake_row E n) (fold (\<lambda>(t, sd).
      table_insert_or_ignore (txhash_to_string E t) (0, enc_doc E sd)) gs rows) \<and>
    distinct (map fst (fold (\<lambda>(t, sd).
      table_insert_or_ignore (txhash_to_string E t) (0, enc_doc E sd)) gs rows))"
  using assms
proof (induction gs arbitrary: rows)
  case (Cons g gs)
  obtain t sd where g: "g = (t, sd)" by fastforce
  have "stake_row E n (txhash_to_string E t, (0, enc_doc E sd))"
    by (auto simp: stake_row_def)
  with Cons.prems have "list_all (stake_row E n)
      (table_insert_or_ignore (txhash_to_string E t) (0, enc_doc E sd) rows)"
    and "distinct (map fst (table_insert_or_ignore (txhash_to_string E t) (0, enc_doc E sd) rows))"
    by (auto simp: table_insert_or_ignore_def)
  with Cons.IH g show ?case by simp
qed simp

lemma storage_open_inv:
  assumes "tables_inv E d"
  shows "storage_inv E (storage_open E folder g d f)"
  using assms init_stakes_rows [of E "length (history d)" "stakes d" "gc_stakes g"]
  by (auto simp: storage_inv_def storage_open_def tables_inv_def init_stakes_def Let_def)

definition no_tables :: tables where
  "no_tables = \<lparr>history = [], consensus_proofs = [], stakes = []\<rparr>"

lemma tables_inv_empty [simp]: "tables_inv E no_tables"
  by (simp add: tables_inv_def no_tables_def)

section \<open>Reads\<close>

lemma query_block_eq:
  assumes "codec_ok E" and "tables_inv E d"
  shows "query_block E h d = (if sql_bindable E h then Ok (block_at E d h) else Err SqlError)"
proof (cases "map_of (history d) h")
  case None
  then show ?thesis by (simp add: query_block_def query_def block_at_def)
next
  case (Some row)
  then have "(h, row) \<in> set (history d)" by (rule map_of_SomeD)
  with assms(2) have "history_row E (h, row)" by (simp add: tables_inv_def list_all_iff)
  with Some assms(1) show ?thesis
    by (auto simp: query_block_def query_def block_at_def history_row_def option_to_res_def)
qed

text \<open>
  The read-through cache is invisible: a read returns what the table holds and changes
  nothing but the cache.  A height that SQLite cannot hold is retried for ever.
\<close>

lemma get_block_spec:
  assumes "ext_ok E" and "storage_inv E s"
  shows "\<exists>c. get_block E h s =
      (if sql_bindable E h then Ok (block_at E (db s) h) else Panic Overflow, s\<lparr>old_cache := c\<rparr>) \<and>
    coherent (block_at E (db s)) c"
proof -
  from assms have codec: "codec_ok E" and evict: "evict_ok (evict_block E)"
    and inv: "tables_inv E (db s)" and coh: "coherent (block_at E (db s)) (old_cache s)"
    by (simp_all add: ext_okD storage_inv_def)
  show ?thesis
  proof (cases "map_of (old_cache s) h")
    case (Some b)
    with coh have "block_at E (db s) h = Some b" by (rule coherent_lookup)
    with block_at_bindable [OF codec inv] Some coh show ?thesis
      by (intro exI [of _ "old_cache s"]) (auto simp: get_block_def)
  next
    case None
    show ?thesis
    proof (cases "sql_bindable E h")
      case False
      with None coh show ?thesis
        by (intro exI [of _ "old_cache s"]) (auto simp: get_block_def query_block_eq [OF codec inv])
    next
      case bind: True
      show ?thesis
      proof (cases "block_at E (db s) h")
        case (Some b)
        with coherent_put [OF evict coh] None bind show ?thesis
          by (intro exI [of _ "cache_put (evict_block E) h b (old_cache s)"])
            (auto simp: get_block_def query_block_eq [OF codec inv])
      next
        case no: None
        with None bind coh show ?thesis
          by (intro exI [of _ "old_cache s"]) (auto simp: get_block_def query_block_eq [OF codec inv])
      qed
    qed
  qed
qed

lemma storage_inv_cache:
  "storage_inv E s \<Longrightarrow> coherent (block_at E (db s)) c \<Longrightarrow> storage_inv E (s\<lparr>old_cache := c\<rparr>)"
  by (simp add: storage_inv_def)

lemma add_stake_rows_Ok:
  "codec_ok E \<Longrightarrow> list_all (stake_row E n) rows \<Longrightarrow> \<exists>k'. add_stake_rows E rows k = Ok k'"
proof (induction rows arbitrary: k)
  case (Cons row rows)
  then show ?case by (auto simp: stake_row_def)
qed simp

lemma get_stakeset_Ok:
  assumes "codec_ok E" and "tables_inv E (db s)" and "sql_bindable E h"
  shows "\<exists>k. get_stakeset E h s = Ok k"
proof -
  have "list_all (stake_row E (length (history (db s))))
    (filter (\<lambda>(t, (h', doc)). h' \<le> h) (stakes (db s)))"
    using assms(2) by (auto simp: tables_inv_def list_all_iff)
  from add_stake_rows_Ok [OF assms(1) this] obtain k where
    "add_stake_rows E (filter (\<lambda>(t, (h', doc)). h' \<le> h) (stakes (db s)))
      (fold (\<lambda>(t, sd). add_stake E t sd) (gc_stakes (genesis s)) (stakes_new E)) = Ok k" by blast
  with assms(3) show ?thesis
    by (simp add: get_stakeset_def query_def Let_def)
qed

lemma get_stakeset_cache [simp]: "get_stakeset E h (s\<lparr>old_cache := c\<rparr>) = get_stakeset E h s"
  by (simp add: get_stakeset_def)

lemma highest_height_cache [simp]: "highest_height (s\<lparr>old_cache := c\<rparr>) = highest_height s"
  by (simp add: highest_height_def)

text \<open>The sealed state at a height, as a function of the tables.\<close>

definition state_at ::
    "('f, 's, 'u, 'k, 'x) ext_scheme \<Rightarrow> ('f, 'u) storage \<Rightarrow> u64 \<Rightarrow> 's option res" where
  "state_at E s h =
     (if sql_bindable E h then
        case block_at E (db s) h of
          None \<Rightarrow> Ok None
        | Some b \<Rightarrow> bind_res (get_stakeset E h s) (\<lambda>k.
            if root_hash E k = hd_stakes_hash (b_header b)
            then Ok (Some (from_block E b k (forest s))) else Panic AssertFailed)
      else Panic Overflow)"

lemma get_state_spec:
  assumes "ext_ok E" and "storage_inv E s"
  shows "\<exists>c. get_state E h s = (state_at E s h, s\<lparr>old_cache := c\<rparr>) \<and>
    coherent (block_at E (db s)) c"
proof -
  from get_block_spec [OF assms] obtain c where c: "get_block E h s =
      (if sql_bindable E h then Ok (block_at E (db s) h) else Panic Overflow, s\<lparr>old_cache := c\<rparr>)"
    and coh: "coherent (block_at E (db s)) c" by blast
  have "get_state E h s = (state_at E s h, s\<lparr>old_cache := c\<rparr>)"
  proof (cases "sql_bindable E h")
    case True
    show ?thesis
    proof (cases "block_at E (db s) h")
      case None
      with True c show ?thesis by (simp add: get_state_def state_at_def)
    next
      case (Some b)
      with True c show ?thesis
        by (cases "get_stakeset E h s") (simp_all add: get_state_def state_at_def)
    qed
  next
    case False
    with c show ?thesis by (simp add: get_state_def state_at_def)
  qed
  with coh show ?thesis by blast
qed

text \<open>The state at the tip of the chain; it exists unless the stake assertion fails.\<close>

definition tip_state ::
    "('f, 's, 'u, 'k, 'x) ext_scheme \<Rightarrow> ('f, 'u) storage \<Rightarrow> 's res" where
  "tip_state E s =
     (if history (db s) = [] then Ok (seal E None (realize E (genesis s) (forest s)))
      else bind_res (state_at E s (highest_height s)) (\<lambda>st.
        case st of Some st \<Rightarrow> Ok st | None \<Rightarrow> Panic ExpectFailed))"

lemma tip_state_cong:
  assumes "db s = db s'" and "genesis s = genesis s'" and "forest s = forest s'"
  shows "tip_state E s = tip_state E s'"
proof -
  have stakeset: "get_stakeset E h s = get_stakeset E h s'" for h
    unfolding get_stakeset_def assms ..
  show ?thesis
    unfolding tip_state_def state_at_def highest_height_def assms stakeset ..
qed

lemma highest_height_0_iff:
  assumes "tables_inv E (db s)"
  shows "0 < highest_height s \<longleftrightarrow> history (db s) \<noteq> []"
  using highest_height_eq [OF assms] by (auto simp: word_less_nat_alt)

lemma highest_state_spec:
  assumes "ext_ok E" and "storage_inv E s"
  shows "\<exists>c. highest_state E s = (tip_state E s, s\<lparr>old_cache := c\<rparr>) \<and>
    coherent (block_at E (db s)) c"
proof -
  have inv: "tables_inv E (db s)" using assms(2) by (simp add: storage_inv_def)
  show ?thesis
  proof (cases "history (db s) = []")
    case True
    with highest_height_0_iff [OF inv] assms(2) show ?thesis
      by (intro exI [of _ "old_cache s"]) (simp add: highest_state_def tip_state_def storage_inv_def)
  next
    case False
    from get_state_spec [OF assms, of "highest_height s"] obtain c
      where c: "get_state E (highest_height s) s = (state_at E s (highest_height s), s\<lparr>old_cache := c\<rparr>)"
        and coh: "coherent (block_at E (db s)) c" by blast
    have "highest_state E s = (tip_state E s, s\<lparr>old_cache := c\<rparr>)"
      using False highest_height_0_iff [OF inv] c
      by (cases "state_at E s (highest_height s)")
        (auto simp: highest_state_def tip_state_def split: option.splits)
    with coh show ?thesis by blast
  qed
qed

lemma tip_block:
  assumes "codec_ok E" and "tables_inv E (db s)" and "history (db s) \<noteq> []"
  obtains b where "block_at E (db s) (highest_height s) = Some b"
    and "sql_bindable E (highest_height s)"
proof -
  have "1 \<le> length (history (db s))" using assms(3) by (cases "history (db s)") auto
  then have "\<exists>b. block_at E (db s) (highest_height s) = Some b"
    by (simp add: block_at_ex [OF assms(1,2)] highest_height_eq [OF assms(2)])
  with block_at_bindable [OF assms(1,2)] that show thesis by blast
qed

lemma tip_state_cases:
  assumes "ext_ok E" and "storage_inv E s"
  obtains (ok) st where "tip_state E s = Ok st"
      and "unat (hd_height (state_header E st)) = length (history (db s))"
  | (bad) "tip_state E s = Panic AssertFailed" and "history (db s) \<noteq> []"
proof -
  have codec: "codec_ok E" and inv: "tables_inv E (db s)"
    using assms by (simp_all add: ext_okD storage_inv_def)
  show thesis
  proof (cases "history (db s) = []")
    case True
    with ok show thesis by (simp add: tip_state_def ext_okD [OF assms(1)])
  next
    case False
    from tip_block [OF codec inv False] obtain b
      where b: "block_at E (db s) (highest_height s) = Some b"
        and bind: "sql_bindable E (highest_height s)" .
    from get_stakeset_Ok [OF codec inv bind] obtain k
      where k: "get_stakeset E (highest_height s) s = Ok k" by blast
    show thesis
    proof (cases "root_hash E k = hd_stakes_hash (b_header b)")
      case True
      then have "tip_state E s = Ok (from_block E b k (forest s))"
        using False b bind k by (simp add: tip_state_def state_at_def)
      with ok show thesis
        by (simp add: ext_okD [OF assms(1)] block_at_height [OF codec inv b] highest_height_eq [OF inv])
    next
      case neq: False
      then show thesis using False b bind k bad by (simp add: tip_state_def state_at_def)
    qed
  qed
qed

section \<open>Storing a block\<close>

lemma exec_insert_Ok_iff:
  "exec_insert E blk n key v rows = Ok rows' \<longleftrightarrow>
     sql_bindable E (height_of blk) \<and> \<not> sql_fault E blk n \<and>
     key \<notin> set (map fst rows) \<and> rows' = rows @ [(key, v)]"
  by (auto simp: exec_insert_def query_def table_insert_def)

lemma insert_stakes_rows:
  assumes "insert_stakes E blk n txns rows = Ok rows'"
    and "list_all (stake_row E m) rows" and "distinct (map fst rows)" and "unat (height_of blk) \<le> m"
  shows "list_all (stake_row E m) rows' \<and> distinct (map fst rows') \<and> (\<exists>new. rows' = rows @ new)"
  using assms
proof (induction txns arbitrary: n rows)
  case (Cons txn txns)
  show ?case
  proof (cases "is_new_stake E blk txn")
    case (Some doc)
    let ?row = "(txhash_to_string E (hash_nosigs E txn), (height_of blk, enc_doc E doc))"
    from Cons.prems(1) Some have key: "fst ?row \<notin> set (map fst rows)"
      and rest: "insert_stakes E blk (Suc n) txns (rows @ [?row]) = Ok rows'"
      by (auto simp: bind_res_Ok_iff exec_insert_Ok_iff)
    have "stake_row E m ?row" using Cons.prems(4) by (auto simp: stake_row_def)
    with Cons.IH [OF rest] Cons.prems key show ?thesis by auto
  qed (use Cons in auto)
qed simp

lemma store_block_Ok:
  assumes "store_block E blk cp d = Ok d'"
  obtains new where "history d' = history d @
      [(height_of blk, (enc_header E (b_header blk), enc_block E blk))]"
    and "consensus_proofs d' = consensus_proofs d @ [(height_of blk, enc_proof E cp)]"
    and "insert_stakes E blk 2 (transactions blk) (stakes d) = Ok (stakes d')"
    and "sql_bindable E (height_of blk)"
  using assms by (auto simp: store_block_def bind_res_Ok_iff exec_insert_Ok_iff)

lemma store_block_inv:
  assumes "tables_inv E d" and "store_block E blk cp d = Ok d'"
    and "unat (height_of blk) = Suc (length (history d))"
  shows "tables_inv E d'"
  using assms(2)
proof (rule store_block_Ok)
  assume new: "history d' = history d @
      [(height_of blk, (enc_header E (b_header blk), enc_block E blk))]"
    "consensus_proofs d' = consensus_proofs d @ [(height_of blk, enc_proof E cp)]"
    "insert_stakes E blk 2 (transactions blk) (stakes d) = Ok (stakes d')"
    "sql_bindable E (height_of blk)"
  have "list_all (stake_row E (Suc (length (history d)))) (stakes d)"
    using assms(1) by (fastforce simp: tables_inv_def list_all_iff stake_row_def)
  with insert_stakes_rows [OF new(3)] assms(1,3)
  have "list_all (stake_row E (Suc (length (history d)))) (stakes d') \<and> distinct (map fst (stakes d'))"
    by (simp add: tables_inv_def)
  with assms(1,3) new show ?thesis
    by (auto simp: tables_inv_def history_row_def)
qed

lemma store_block_lookup:
  assumes "codec_ok E" and "tables_inv E d" and "store_block E blk cp d = Ok d'"
    and "unat (height_of blk) = Suc (length (history d))"
  shows "block_at E d' = (block_at E d)(height_of blk \<mapsto> blk)"
    and "proof_at E d' = (proof_at E d)(height_of blk \<mapsto> cp)"
proof -
  have "height_of blk \<notin> set (map fst (history d))"
    unfolding stored_heights [OF assms(2)] assms(4) by simp
  moreover from this have "height_of blk \<notin> set (map fst (consensus_proofs d))"
    unfolding proof_heights [OF assms(2)] .
  ultimately have none: "map_of (history d) (height_of blk) = None"
    "map_of (consensus_proofs d) (height_of blk) = None"
    by (simp_all add: map_of_eq_None_iff)
  from assms(3) obtain "history d' = history d @
      [(height_of blk, (enc_header E (b_header blk), enc_block E blk))]"
    and "consensus_proofs d' = consensus_proofs d @ [(height_of blk, enc_proof E cp)]"
    by (rule store_block_Ok)
  with none assms(1) show "block_at E d' = (block_at E d)(height_of blk \<mapsto> blk)"
    and "proof_at E d' = (proof_at E d)(height_of blk \<mapsto> cp)"
    by (auto simp: block_at_def proof_at_def fun_eq_iff map_add_def split: option.splits)
qed

section \<open>Applying a block\<close>

lemma check_block_Ok:
  assumes "check_block E blk cp hs = Ok ()"
  shows "unat (height_of blk) = Suc (unat (hd_height (state_header E hs)))"
    and "check_quorum E (b_header blk) cp (pre_tip911 E (raw_stakes E hs)) = Ok ()"
  using assms by (auto simp: check_block_def bind_res_Ok_iff checked_add_Ok_iff split: if_splits)

text \<open>The storage right after the transaction has committed.\<close>

definition committed ::
    "('f, 's, 'u, 'k, 'x) ext_scheme \<Rightarrow> 'f \<Rightarrow> tables \<Rightarrow> ('f, 'u) storage \<Rightarrow> ('f, 'u) storage" where
  "committed E f d s = s\<lparr>forest := forest_flush E f, db := d\<rparr>"

text \<open>What is left to do then: read the new tip, rebase the mempool, wake the waiters.\<close>

definition announce ::
    "('f, 's, 'u, 'k, 'x) ext_scheme \<Rightarrow> 's res \<Rightarrow> ('f, 'u) storage \<Rightarrow> unit res \<times> ('f, 'u) storage" where
  "announce E tip s = bind_st (tip, s) (\<lambda>next s.
     (Ok (), s\<lparr>st_mempool := rebase E next (st_mempool s),
               new_block_notify := Suc (new_block_notify s)\<rparr>))"

lemma apply_block_commit:
  assumes "ext_ok E" and "storage_inv E s" and "tip_state E s = Ok hs"
    and "check_block E blk cp hs = Ok ()" and "stf_apply_block E blk hs (forest s) = (Ok st, f)"
    and "store_block E blk cp (db s) = Ok d'"
  obtains c where "apply_block E blk cp s =
      announce E (tip_state E (committed E f d' s)) ((committed E f d' s)\<lparr>old_cache := c\<rparr>)"
    and "storage_inv E ((committed E f d' s)\<lparr>old_cache := c\<rparr>)"
    and "unat (height_of blk) = Suc (length (history (db s)))"
proof -
  have codec: "codec_ok E" and inv: "tables_inv E (db s)"
    using assms(1,2) by (simp_all add: ext_okD storage_inv_def)
  from highest_state_spec [OF assms(1,2)] obtain c0
    where c0: "highest_state E s = (Ok hs, s\<lparr>old_cache := c0\<rparr>)"
      and coh0: "coherent (block_at E (db s)) c0" using assms(3) by auto
  have len: "unat (height_of blk) = Suc (length (history (db s)))"
    using check_block_Ok(1) [OF assms(4)] assms(3)
    by (rule_tac tip_state_cases [OF assms(1,2)]) auto
  define s4 where "s4 = s\<lparr>old_cache := c0, forest := forest_flush E f, db := d'\<rparr>"
  have s4: "s4 = (committed E f d' s)\<lparr>old_cache := c0\<rparr>"
    by (simp add: s4_def committed_def)
  have mono: "block_at E d' h = Some b" if "block_at E (db s) h = Some b" for h b
    using that len block_at_ex [OF codec inv, of h]
    by (auto simp: store_block_lookup(1) [OF codec inv assms(6) len])
  have inv4: "storage_inv E s4"
    using store_block_inv [OF inv assms(6) len] coherent_mono [OF coh0 mono]
    by (simp add: storage_inv_def s4_def committed_def)
  from highest_state_spec [OF assms(1) inv4] obtain c4
    where c4: "highest_state E s4 = (tip_state E s4, s4\<lparr>old_cache := c4\<rparr>)"
      and coh4: "coherent (block_at E (db s4)) c4" by blast
  have tip4: "tip_state E s4 = tip_state E (committed E f d' s)"
    by (rule tip_state_cong) (simp_all add: s4)
  show thesis
  proof
    show "unat (height_of blk) = Suc (length (history (db s)))" by (rule len)
    show "storage_inv E ((committed E f d' s)\<lparr>old_cache := c4\<rparr>)"
      using storage_inv_cache [OF inv4 coh4] by (simp add: s4)
    have "apply_block E blk cp s = bind_st (highest_state E s4) (\<lambda>next s.
        (Ok (), s\<lparr>st_mempool := rebase E next (st_mempool s),
                  new_block_notify := Suc (new_block_notify s)\<rparr>))"
      using c0 assms(4-6) by (simp add: apply_block_def Let_def s4_def)
    with c4 tip4 show "apply_block E blk cp s =
        announce E (tip_state E (committed E f d' s)) ((committed E f d' s)\<lparr>old_cache := c4\<rparr>)"
      by (simp add: announce_def s4)
  qed
qed

text \<open>
  Either the block is rejected, by one of the checks, the state machine or the transaction,
  and nothing but the block cache and the forest has changed; or it is committed.
\<close>

lemma apply_block_outcome:
  assumes "apply_block E blk cp s = (r, s')" and "ext_ok E" and "storage_inv E s"
  obtains
    (rejected) c f where "s' = s\<lparr>old_cache := c, forest := f\<rparr>" and "r \<noteq> Ok ()"
      and "storage_inv E s'"
  | (commits) hs st f d' where "tip_state E s = Ok hs" and "check_block E blk cp hs = Ok ()"
      and "stf_apply_block E blk hs (forest s) = (Ok st, f)"
      and "store_block E blk cp (db s) = Ok d'"
proof -
  from highest_state_spec [OF assms(2,3)] obtain c0
    where c0: "highest_state E s = (tip_state E s, s\<lparr>old_cache := c0\<rparr>)"
      and coh0: "coherent (block_at E (db s)) c0" by blast
  have keep: "storage_inv E (s\<lparr>old_cache := c0, forest := f\<rparr>)" for f
    using assms(3) coh0 by (simp add: storage_inv_def)
  have rej: thesis if "r \<noteq> Ok ()" "s' = s\<lparr>old_cache := c0, forest := f\<rparr>" for f
    using that rejected [where c = c0 and f = f] keep [of f] by simp
  note run = assms(1) [unfolded apply_block_def c0]
  show thesis
  proof (cases "tip_state E s")
    case hs: (Ok hs)
    show thesis
    proof (cases "check_block E blk cp hs")
      case chk: (Ok u)
      obtain r1 f where stf: "stf_apply_block E blk hs (forest s) = (r1, f)" by fastforce
      show thesis
      proof (cases r1)
        case r1: (Ok st)
        show thesis
        proof (cases "store_block E blk cp (db s)")
          case (Ok d')
          with hs chk stf r1 show thesis by (intro commits) auto
        next
          case (Err e)
          with run hs chk stf r1 show thesis
            by (intro rej [of "forest_flush E f"]) (auto simp: Let_def)
        next
          case (Panic p)
          with run hs chk stf r1 show thesis
            by (intro rej [of "forest_flush E f"]) (auto simp: Let_def)
        qed
      next
        case (Err e)
        with run hs chk stf show thesis by (intro rej [of f]) auto
      next
        case (Panic p)
        with run hs chk stf show thesis by (intro rej [of f]) auto
      qed
    next
      case (Err e)
      with run hs show thesis by (intro rej [of "forest s"]) auto
    next
      case (Panic p)
      with run hs show thesis by (intro rej [of "forest s"]) auto
    qed
  next
    case (Err e)
    with run show thesis by (intro rej [of "forest s"]) auto
  next
    case (Panic p)
    with run show thesis by (intro rej [of "forest s"]) auto
  qed
qed

text \<open>
  A committed block stays committed: the call succeeds unless the new tip cannot be rebuilt
  from the tables, in which case the process stops with the block in the database.
\<close>

lemma apply_block_cases:
  assumes "apply_block E blk cp s = (r, s')" and "ext_ok E" and "storage_inv E s"
  obtains
    (rejected) c f where "s' = s\<lparr>old_cache := c, forest := f\<rparr>" and "r \<noteq> Ok ()"
      and "storage_inv E s'"
  | (stored) hs st f where "tip_state E s = Ok hs" and "check_block E blk cp hs = Ok ()"
      and "stf_apply_block E blk hs (forest s) = (Ok st, f)"
      and "store_block E blk cp (db s) = Ok (db s')"
      and "unat (height_of blk) = Suc (length (history (db s)))"
      and "forest s' = forest_flush E f" and "genesis s' = genesis s"
      and "storage_inv E s'"
      and "(\<exists>next. tip_state E s' = Ok next \<and> r = Ok () \<and>
              st_mempool s' = rebase E next (st_mempool s) \<and>
              new_block_notify s' = Suc (new_block_notify s)) \<or>
           (tip_state E s' = Panic AssertFailed \<and> r = Panic AssertFailed \<and>
              st_mempool s' = st_mempool s \<and> new_block_notify s' = new_block_notify s)"
  using assms
proof (cases rule: apply_block_outcome)
  case (rejected c f)
  with that(1) show thesis by blast
next
  case (commits hs st f d')
  from assms(2,3) commits obtain c where c: "apply_block E blk cp s =
      announce E (tip_state E (committed E f d' s)) ((committed E f d' s)\<lparr>old_cache := c\<rparr>)"
    and inv: "storage_inv E ((committed E f d' s)\<lparr>old_cache := c\<rparr>)"
    and len: "unat (height_of blk) = Suc (length (history (db s)))"
    by (rule apply_block_commit)
  note res = c [unfolded assms(1) announce_def]
  have same: "db s' = d' \<and> genesis s' = genesis s \<and> forest s' = forest_flush E f \<and> storage_inv E s'"
    using res inv by (cases "tip_state E (committed E f d' s)")
      (simp_all add: committed_def storage_inv_def)
  then have tip: "tip_state E s' = tip_state E (committed E f d' s)"
    by (intro tip_state_cong) (simp_all add: committed_def)
  have tip_c: "tip_state E ((committed E f d' s)\<lparr>old_cache := c\<rparr>) = tip_state E (committed E f d' s)"
    by (rule tip_state_cong) simp_all
  from assms(2) inv show thesis
  proof (cases rule: tip_state_cases)
    case (ok nxt)
    with tip_c res tip same commits len show thesis
      by (intro that(2) [of hs st f]) (simp_all add: committed_def)
  next
    case bad
    with tip_c res tip same commits len show thesis
      by (intro that(2) [of hs st f]) (simp_all add: committed_def)
  qed
qed

section \<open>The contract\<close>

definition tip_height :: "('f, 'u) storage \<Rightarrow> nat" where
  "tip_height s = length (history (db s))"

lemma store_block_history:
  "store_block E blk cp d = Ok d' \<Longrightarrow> length (history d') = Suc (length (history d))"
  by (erule store_block_Ok) simp

interpretation st: proof_store
  "\<lambda>s. ext_ok E \<and> storage_inv E s" tip_height "\<lambda>s. block_at E (db s)" "apply_block E"
  "\<lambda>s. proof_at E (db s)" for E :: "('f, 's, 'u, 'k, 'x) ext_scheme"
proof (unfold_locales, goal_cases)
  case (1 s b p r s')
  then show ?case by (auto elim: apply_block_cases)
next
  case (2 s b p s')
  from 2(2) conjunct1 [OF 2(1)] conjunct2 [OF 2(1)] show ?case
  proof (cases rule: apply_block_cases)
    case (stored hs st f)
    with 2(1) store_block_lookup [of E "db s" b p "db s'"] show ?thesis
      by (simp add: tip_height_def store_block_history ext_okD storage_inv_def)
  qed simp
next
  case (3 s b p e s')
  from 3(2) conjunct1 [OF 3(1)] conjunct2 [OF 3(1)] show ?case
    by (cases rule: apply_block_cases) (auto simp: tip_height_def)
next
  case (4 s b p q s')
  from 4(2) conjunct1 [OF 4(1)] conjunct2 [OF 4(1)] show ?case
  proof (cases rule: apply_block_cases)
    case (rejected c f)
    then show ?thesis by (simp add: tip_height_def)
  next
    case (stored hs st f)
    with 4(1) store_block_lookup [of E "db s" b p "db s'"] show ?thesis
      by (simp add: tip_height_def store_block_history ext_okD storage_inv_def)
  qed
next
  case (5 s h)
  then show ?case by (simp add: block_at_ex tip_height_def ext_okD storage_inv_def)
next
  case (6 s h b)
  then show ?case using block_at_height [of E "db s" h b] by (simp add: ext_okD storage_inv_def)
next
  case (7 s h)
  then show ?case by (simp add: block_at_ex proof_at_ex ext_okD storage_inv_def)
next
  case (8 s b p s')
  from 8(2) conjunct1 [OF 8(1)] conjunct2 [OF 8(1)] show ?case
  proof (cases rule: apply_block_cases)
    case (stored hs st f)
    with 8(1) store_block_lookup [of E "db s" b p "db s'"] show ?thesis
      by (simp add: ext_okD storage_inv_def)
  qed simp
next
  case (9 s b p e s')
  from 9(2) conjunct1 [OF 9(1)] conjunct2 [OF 9(1)] show ?case
    by (cases rule: apply_block_cases) auto
qed

end
