(* ===== verification/Storage_Props.thy ===== *)
theory Storage_Props
  imports Storage_Inv
begin

text \<open>
  The life of a storage (\<open>storage_reach\<close>: opened on an empty folder, then any sequence of
  calls and restarts) and the properties of \<^verbatim>\<open>src/storage/storage.rs\<close>.
\<close>

section \<open>Lives of a storage\<close>

inductive storage_step ::
    "('f, 's, 'u, 'k, 'x) ext_scheme \<Rightarrow> ('f, 'u) storage \<Rightarrow> ('f, 'u) storage \<Rightarrow> bool" for E where
  new_block: "apply_block E b p s = (r, s') \<Longrightarrow> storage_step E s s'"
| read_block: "get_block E h s = (rb, s') \<Longrightarrow> storage_step E s s'"
| read_state: "get_state E h s = (rs, s') \<Longrightarrow> storage_step E s s'"
| read_tip: "highest_state E s = (rt, s') \<Longrightarrow> storage_step E s s'"
| send_tx: "apply_transaction E t (st_mempool s) = (ru, m) \<Longrightarrow>
    storage_step E s (s\<lparr>st_mempool := m\<rparr>)"
| rebase_mempool: "storage_step E s (s\<lparr>st_mempool := rebase E st (st_mempool s)\<rparr>)"
| restart: "storage_step E s (storage_open E folder (genesis s) (db s) f)"

inductive storage_reach :: "('f, 's, 'u, 'k, 'x) ext_scheme \<Rightarrow> ('f, 'u) storage \<Rightarrow> bool" for E where
  opened: "storage_reach E (storage_open E folder g no_tables f)"
| step: "storage_reach E s \<Longrightarrow> storage_step E s s' \<Longrightarrow> storage_reach E s'"

lemma storage_open_tables [simp]:
  "history (db (storage_open E folder g d f)) = history d"
  "consensus_proofs (db (storage_open E folder g d f)) = consensus_proofs d"
  "genesis (storage_open E folder g d f) = g"
  "to_state (st_mempool (storage_open E folder g d f)) = realize E g f"
  by (simp_all add: storage_open_def init_stakes_def Let_def to_state_def mempool_new_def)

text \<open>One step keeps the invariant and every stored block.\<close>

lemma storage_step_keeps:
  assumes "storage_step E s s'" and "ext_ok E" and "storage_inv E s"
  shows "storage_inv E s' \<and> (\<forall>h b. block_at E (db s) h = Some b \<longrightarrow> block_at E (db s') h = Some b)"
  using assms
proof (induction rule: storage_step.induct)
  case (new_block b p s r s')
  with st.put_inv [of E s b p r s'] st.put_mono [of E s b p r s'] show ?case by blast
next
  case (read_block h s rb s')
  with get_block_spec [of E s h] storage_inv_cache show ?case by fastforce
next
  case (read_state h s rs s')
  with get_state_spec [of E s h] storage_inv_cache show ?case by fastforce
next
  case (read_tip s rt s')
  with highest_state_spec [of E s] storage_inv_cache show ?case by fastforce
next
  case (restart s folder f)
  then have "tables_inv E (db s)" by (simp add: storage_inv_def)
  with storage_open_inv [of E "db s"] show ?case by (simp add: block_at_def)
qed (auto simp: storage_inv_def)

lemma storage_reach_inv: "storage_reach E s \<Longrightarrow> ext_ok E \<Longrightarrow> storage_inv E s"
proof (induction rule: storage_reach.induct)
  case (opened folder g f)
  show ?case by (rule storage_open_inv) simp
next
  case (step s s')
  then show ?case using storage_step_keeps by blast
qed

lemma storage_steps_keep:
  assumes "rtranclp (storage_step E) s s'" and "ext_ok E" and "storage_inv E s"
  shows "storage_inv E s' \<and> (\<forall>h b. block_at E (db s) h = Some b \<longrightarrow> block_at E (db s') h = Some b)"
  using assms
proof (induction rule: rtranclp_induct)
  case (step y z)
  with storage_step_keeps [of E y z] show ?case by blast
qed simp

section \<open>Stakes\<close>

lemma insert_stakes_new_heights:
  assumes "insert_stakes E blk n txns rows = Ok rows'"
  shows "\<exists>new. rows' = rows @ new \<and> (\<forall>row\<in>set new. fst (snd row) = height_of blk)"
  using assms
proof (induction txns arbitrary: n rows)
  case (Cons txn txns)
  show ?case
  proof (cases "is_new_stake E blk txn")
    case (Some doc)
    with Cons.prems obtain row where "fst (snd row) = height_of blk"
      and rest: "insert_stakes E blk (Suc n) txns (rows @ [row]) = Ok rows'"
      by (auto simp: bind_res_Ok_iff exec_insert_Ok_iff)
    with Cons.IH [OF rest] show ?thesis by auto
  qed (use Cons in auto)
qed simp

lemma store_block_old_stakes:
  assumes "store_block E blk cp d = Ok d'" and "h < height_of blk"
  shows "filter (\<lambda>(t, (h', doc)). h' \<le> h) (stakes d') = filter (\<lambda>(t, (h', doc)). h' \<le> h) (stakes d)"
  using assms(1)
proof (rule store_block_Ok)
  assume "insert_stakes E blk 2 (transactions blk) (stakes d) = Ok (stakes d')"
  then obtain new where new: "stakes d' = stakes d @ new"
    and "\<forall>row\<in>set new. fst (snd row) = height_of blk"
    using insert_stakes_new_heights by blast
  then have "filter (\<lambda>(t, (h', doc)). h' \<le> h) new = []"
    using assms(2) by (fastforce simp: filter_empty_conv)
  with new show ?thesis by simp
qed

text \<open>When every statement of the transaction goes through.\<close>

definition new_stake_keys :: "('f, 's, 'u, 'k, 'x) ext_scheme \<Rightarrow> block \<Rightarrow> tx list \<Rightarrow> string list" where
  "new_stake_keys E blk txns =
     map (\<lambda>t. txhash_to_string E (hash_nosigs E t)) (filter (\<lambda>t. is_new_stake E blk t \<noteq> None) txns)"

lemma exec_insert_succeeds:
  "\<forall>n. \<not> sql_fault E blk n \<Longrightarrow> sql_bindable E (height_of blk) \<Longrightarrow> key \<notin> set (map fst rows) \<Longrightarrow>
   exec_insert E blk n key v rows = Ok (rows @ [(key, v)])"
  by (simp add: exec_insert_Ok_iff)

lemma insert_stakes_succeeds:
  assumes "\<forall>n. \<not> sql_fault E blk n" and "sql_bindable E (height_of blk)"
    and "distinct (map fst rows @ new_stake_keys E blk txns)"
  shows "\<exists>rows'. insert_stakes E blk n txns rows = Ok rows'"
  using assms(3)
proof (induction txns arbitrary: n rows)
  case (Cons txn txns)
  show ?case
  proof (cases "is_new_stake E blk txn")
    case (Some doc)
    let ?row = "(txhash_to_string E (hash_nosigs E txn), (height_of blk, enc_doc E doc))"
    from Cons.prems Some have fresh: "fst ?row \<notin> set (map fst rows)"
      and "distinct (map fst (rows @ [?row]) @ new_stake_keys E blk txns)"
      by (auto simp: new_stake_keys_def)
    from Cons.IH [OF this(2)] obtain rows'
      where "insert_stakes E blk (Suc n) txns (rows @ [?row]) = Ok rows'" by blast
    moreover have "exec_insert E blk n (fst ?row) (snd ?row) rows = Ok (rows @ [?row])"
      using assms(1,2) fresh by (simp add: exec_insert_Ok_iff)
    ultimately show ?thesis using Some by simp
  next
    case None
    with Cons show ?thesis by (simp add: new_stake_keys_def)
  qed
qed simp

lemma store_block_succeeds:
  assumes "\<forall>n. \<not> sql_fault E blk n" and "sql_bindable E (height_of blk)"
    and "tables_inv E d" and "unat (height_of blk) = Suc (length (history d))"
    and "distinct (map fst (stakes d) @ new_stake_keys E blk (transactions blk))"
  shows "\<exists>d'. store_block E blk cp d = Ok d'"
proof -
  have new: "height_of blk \<notin> set (map fst (history d))"
    unfolding stored_heights [OF assms(3)] assms(4) by simp
  then have new': "height_of blk \<notin> set (map fst (consensus_proofs d))"
    unfolding proof_heights [OF assms(3)] .
  from insert_stakes_succeeds [OF assms(1,2,5)] obtain rows'
    where "insert_stakes E blk 2 (transactions blk) (stakes d) = Ok rows'" by blast
  with new new' assms(1,2) show ?thesis by (simp add: store_block_def exec_insert_succeeds)
qed

section \<open>A block whose stake root is wrong\<close>

text \<open>The stakes of the genesis are rows of the table, so opening the database again adds none.\<close>

definition genesis_rows :: "('f, 's, 'u, 'k, 'x) ext_scheme \<Rightarrow> ('f, 'u) storage \<Rightarrow> bool" where
  "genesis_rows E s \<longleftrightarrow> (\<forall>(t, sd)\<in>set (gc_stakes (genesis s)).
     txhash_to_string E t \<in> set (map fst (stakes (db s))))"

lemma insert_or_ignore_keys:
  "set (map fst rows) \<subseteq> set (map fst (table_insert_or_ignore k v rows))"
  "k \<in> set (map fst (table_insert_or_ignore k v rows))"
  by (auto simp: table_insert_or_ignore_def)

lemma init_stakes_keys:
  "set (map fst rows) \<union> (\<lambda>(t, sd). key t) ` set gs \<subseteq>
   set (map fst (fold (\<lambda>(t, sd). table_insert_or_ignore (key t) (val t sd)) gs rows))"
proof (induction gs arbitrary: rows)
  case (Cons g gs)
  obtain t sd where g: "g = (t, sd)" by fastforce
  let ?rows = "table_insert_or_ignore (key t) (val t sd) rows"
  have "set (map fst rows) \<subseteq> set (map fst ?rows)" and "key t \<in> set (map fst ?rows)"
    by (rule insert_or_ignore_keys)+
  with Cons [where rows = ?rows] show ?case by (auto simp: g)
qed simp

lemma init_stakes_present:
  "\<forall>(t, sd)\<in>set gs. key t \<in> set (map fst rows) \<Longrightarrow>
   fold (\<lambda>(t, sd). table_insert_or_ignore (key t) (val t sd)) gs rows = rows"
  by (induction gs) (force simp: table_insert_or_ignore_def)+

lemma insert_stakes_keys:
  "insert_stakes E b n txs rows = Ok rows' \<Longrightarrow> set (map fst rows) \<subseteq> set (map fst rows')"
proof (induction txs arbitrary: n rows)
  case (Cons txn txs)
  show ?case
  proof (cases "is_new_stake E b txn")
    case None
    with Cons show ?thesis by simp
  next
    case (Some doc)
    with Cons.prems obtain row where "insert_stakes E b (Suc n) txs (rows @ [row]) = Ok rows'"
      by (auto simp: bind_res_Ok_iff exec_insert_Ok_iff)
    from Cons.IH [OF this] show ?thesis by simp
  qed
qed simp

lemma storage_reach_genesis_rows:
  "storage_reach E s \<Longrightarrow> ext_ok E \<Longrightarrow> genesis_rows E s"
proof (induction rule: storage_reach.induct)
  case (opened folder g f)
  show ?case
    using init_stakes_keys [of "[]" "txhash_to_string E" "gc_stakes g" "\<lambda>t sd. (0, enc_doc E sd)"]
    by (auto simp: genesis_rows_def storage_open_def init_stakes_def no_tables_def Let_def)
next
  case (step s s')
  note inv = storage_reach_inv [OF step(1) step(4)]
  from step(2,3) inv step(4) show ?case
  proof (induction rule: storage_step.induct)
    case (new_block b p s r s')
    from new_block(1) \<open>ext_ok E\<close> \<open>storage_inv E s\<close> show ?case
    proof (cases rule: apply_block_cases)
      case (stored hs st f)
      from stored(4) have "insert_stakes E b 2 (transactions b) (stakes (db s)) = Ok (stakes (db s'))"
        by (rule store_block_Ok)
      from insert_stakes_keys [OF this]
      have keys: "set (map fst (stakes (db s))) \<subseteq> set (map fst (stakes (db s')))" .
      have "genesis_rows E s" using new_block(2) \<open>ext_ok E\<close> by blast
      with keys stored(7) show ?thesis
        unfolding genesis_rows_def by (fastforce simp del: set_map)
    qed (use new_block(2) \<open>ext_ok E\<close> in \<open>simp_all add: genesis_rows_def\<close>)
  next
    case (restart s folder f)
    show ?case
      using init_stakes_keys [of "stakes (db s)" "txhash_to_string E" "gc_stakes (genesis s)"
          "\<lambda>t sd. (0, enc_doc E sd)"]
      by (auto simp: genesis_rows_def storage_open_def init_stakes_def Let_def)
  next
    case (read_block h s rb s')
    with get_block_spec [of E s h] show ?case by (auto simp: genesis_rows_def)
  next
    case (read_state h s rs s')
    with get_state_spec [of E s h] show ?case by (auto simp: genesis_rows_def)
  next
    case (read_tip s rt s')
    with highest_state_spec [of E s] show ?case by (auto simp: genesis_rows_def)
  qed (simp_all add: genesis_rows_def)
qed

lemma reopen_same_tables: "genesis_rows E s \<Longrightarrow> db (storage_open E folder (genesis s) (db s) f) = db s"
  by (simp add: storage_open_def init_stakes_def Let_def genesis_rows_def init_stakes_present)

text \<open>A tip that cannot be rebuilt depends on the tables and the genesis alone.\<close>

lemma bad_tip_cong:
  assumes "db s' = db s" and "genesis s' = genesis s" and "history (db s) \<noteq> []"
    and "tip_state E s = Panic q"
  shows "tip_state E s' = Panic q"
proof -
  have top: "highest_height s' = highest_height s" by (simp add: highest_height_def assms(1))
  have k: "get_stakeset E h s' = get_stakeset E h s" for h by (simp add: get_stakeset_def assms(1,2))
  show ?thesis
    using assms(3,4)
    by (auto simp: tip_state_def state_at_def top k assms(1) split: option.splits if_splits
        elim!: bind_res.elims)
qed

definition bricked :: "('f, 's, 'u, 'k, 'x) ext_scheme \<Rightarrow> tables \<Rightarrow> ('f, 'u) storage \<Rightarrow> bool" where
  "bricked E d s \<longleftrightarrow> storage_inv E s \<and> genesis_rows E s \<and> db s = d \<and> history d \<noteq> [] \<and>
     tip_state E s = Panic AssertFailed"

lemma bricked_cong:
  assumes "bricked E d s" and "storage_inv E s'" and "db s' = db s" and "genesis s' = genesis s"
  shows "bricked E d s'"
proof -
  have "genesis_rows E s'" using assms(1,3,4) unfolding bricked_def genesis_rows_def by metis
  with assms bad_tip_cong [of s' s E AssertFailed] show ?thesis by (simp add: bricked_def)
qed

lemma bricked_step:
  assumes "storage_step E s s'" and "ext_ok E" and "bricked E d s"
  shows "bricked E d s'"
proof -
  have inv: "storage_inv E s" using assms(3) by (simp add: bricked_def)
  have inv': "storage_inv E s'" using storage_step_keeps [OF assms(1,2) inv] by blast
  from assms(1) have "db s' = db s \<and> genesis s' = genesis s"
  proof (cases rule: storage_step.cases)
    case (new_block b p r)
    from new_block assms(2) inv show ?thesis
      by (cases rule: apply_block_cases) (use assms(3) in \<open>auto simp: bricked_def\<close>)
  next
    case (read_block h rb)
    with get_block_spec [OF assms(2) inv, of h] show ?thesis by auto
  next
    case (read_state h rs)
    with get_state_spec [OF assms(2) inv, of h] show ?thesis by auto
  next
    case (read_tip rt)
    with highest_state_spec [OF assms(2) inv] show ?thesis by auto
  next
    case (restart folder f)
    have "genesis_rows E s" using assms(3) by (simp add: bricked_def)
    from reopen_same_tables [OF this] restart show ?thesis by simp
  qed simp_all
  with bricked_cong [OF assms(3) inv'] show ?thesis by blast
qed

lemma bricked_for_ever:
  assumes "(storage_step E)\<^sup>*\<^sup>* s s'" and "ext_ok E" and "bricked E d s"
  shows "bricked E d s'"
  using assms by (induction rule: rtranclp_induct) (auto intro: bricked_step)

lemma bricked_fails:
  assumes "bricked E d s" and "ext_ok E"
  shows "fst (highest_state E s) = Panic AssertFailed" and "fst (apply_block E b p s) = Panic AssertFailed"
proof -
  from highest_state_spec [OF assms(2), of s] assms(1) obtain c
    where "highest_state E s = (Panic AssertFailed, s\<lparr>old_cache := c\<rparr>)" by (auto simp: bricked_def)
  then show "fst (highest_state E s) = Panic AssertFailed"
    and "fst (apply_block E b p s) = Panic AssertFailed" by (simp_all add: apply_block_def)
qed

section \<open>A demo storage\<close>

definition demo_genesis :: genesis_config where
  "demo_genesis = \<lparr>gc_network = Custom02,
     gc_init_coindata = \<lparr>cd_covhash = 0, cd_value = 0, cd_denom = Mel, cd_additional_data = []\<rparr>,
     gc_stakes = [(0, demo_doc 1 1000000), (1, demo_doc 2 1)],
     gc_init_fee_pool = 0, gc_init_fee_multiplier = 100\<rparr>"

definition demo_storage :: "(nat, demo_unsealed) storage" where
  "demo_storage = storage_open demo ''/db'' demo_genesis no_tables 0"

text \<open>Block \<open>h\<close> with two stakes behind it; \<open>root\<close> is the stake root it claims.\<close>

definition demo_block :: "u64 \<Rightarrow> hashval \<Rightarrow> block" where
  "demo_block h root =
     \<lparr>b_header = demo_header h root, transactions = [], b_proposer_action = None\<rparr>"

definition demo_cproof :: "u64 \<Rightarrow> cproof" where
  "demo_cproof h = [(1, demo_sig 1 (ucast h))]"

lemmas demo_storage_defs =
  demo_storage_def storage_open_def init_stakes_def demo_genesis_def no_tables_def path_push_def
  table_insert_or_ignore_def demo_realize_def mempool_new_def demo_root_def

lemmas demo_run_defs =
  apply_block_def highest_state_def highest_height_def check_block_def checked_add_def
  check_quorum_def has_signed_def is_active_def checked_mul_def demo_apply_block_def
  store_block_def exec_insert_def query_def table_insert_def get_state_def get_block_def
  query_block_def get_stakeset_def cache_put_def demo_block_def demo_header_def demo_doc_def
  demo_cproof_def

lemma demo_ext_ok: "ext_ok demo"
  using demo_laws by (simp add: ext_ok_def)

lemma demo_reach: "storage_reach demo demo_storage"
  unfolding demo_storage_def by (rule storage_reach.opened)

lemma demo_storage_inv: "storage_inv demo demo_storage"
  by (rule storage_reach_inv [OF demo_reach demo_ext_ok])

lemma demo_apply: "fst (apply_block demo (demo_block 1 2) (demo_cproof 1) demo_storage) = Ok ()"
  by (simp add: demo_storage_defs demo_run_defs Let_def)

definition demo_storage1 :: "(nat, demo_unsealed) storage" where
  "demo_storage1 = snd (apply_block demo (demo_block 1 2) (demo_cproof 1) demo_storage)"

lemma demo_apply1:
  "apply_block demo (demo_block 1 2) (demo_cproof 1) demo_storage = (Ok (), demo_storage1)"
  unfolding demo_storage1_def by (rule prod_eqI) (simp_all add: demo_apply)

lemma demo_step1: "storage_step demo demo_storage demo_storage1"
  by (rule storage_step.new_block) (rule demo_apply1)

lemma demo_reach1: "storage_reach demo demo_storage1"
  by (rule storage_reach.step [OF demo_reach demo_step1])

lemma demo_storage1_inv: "storage_inv demo demo_storage1"
  by (rule storage_reach_inv [OF demo_reach1 demo_ext_ok])

lemma demo_history: "history (db demo_storage) = []"
  by (simp add: demo_storage_def no_tables_def)

lemma demo_block_at1: "block_at demo (db demo_storage1) 1 = Some (demo_block 1 2)"
  using st.put_reads_back [OF _ demo_apply1] demo_storage_inv demo_ext_ok
  by (simp add: demo_block_def demo_header_def)

section \<open>Properties\<close>

text \<open>C2: Every state a node's storage can reach, through any blocks offered, reads, mempool
  traffic and restarts, satisfies the storage invariant: blocks 1 to n in order without gaps, a
  proof for each of them, every blob decodable, and a block cache that agrees with the tables.\<close>

theorem storage_reachable_inv:
  assumes "storage_reach E s" and "ext_ok E"
  shows "storage_inv E s"
  by (rule storage_reach_inv [OF assms])

theorem storage_reachable_inv_witness: "storage_inv demo demo_storage1"
  by (rule storage_reachable_inv [OF demo_reach1 demo_ext_ok])

text \<open>C10: The stored chain has no gaps: in every reachable state a block is stored at a height
  exactly when its proof is, and that is exactly when the height is between 1 and the highest
  height.\<close>

theorem chain_has_no_gaps:
  assumes "storage_reach E s" and "ext_ok E"
  shows "((\<exists>b. block_at E (db s) h = Some b) \<longleftrightarrow> 1 \<le> h \<and> h \<le> highest_height s) \<and>
    ((\<exists>p. proof_at E (db s) h = Some p) \<longleftrightarrow> 1 \<le> h \<and> h \<le> highest_height s)"
proof -
  have inv: "tables_inv E (db s)"
    using storage_reach_inv [OF assms] by (simp add: storage_inv_def)
  show ?thesis
    unfolding block_at_ex [OF ext_okD(1) [OF assms(2)] inv] proof_at_ex [OF ext_okD(1) [OF assms(2)] inv]
    by (simp add: word_le_nat_alt highest_height_eq [OF inv])
qed

theorem chain_has_no_gaps_witness:
  "((\<exists>b. block_at demo (db demo_storage1) 1 = Some b) \<longleftrightarrow> 1 \<le> (1::u64) \<and> 1 \<le> highest_height demo_storage1) \<and>
    ((\<exists>p. proof_at demo (db demo_storage1) 1 = Some p) \<longleftrightarrow> 1 \<le> (1::u64) \<and> 1 \<le> highest_height demo_storage1)"
  by (rule chain_has_no_gaps [OF demo_reach1 demo_ext_ok])

text \<open>C3: Finality on one node: once a block is stored at a height it is the block at that height
  in every later state, whatever is offered, read or restarted in between.\<close>

theorem history_append_only:
  assumes "storage_reach E s" and "ext_ok E" and "rtranclp (storage_step E) s s'"
    and "block_at E (db s) h = Some b"
  shows "block_at E (db s') h = Some b"
  using storage_steps_keep [OF assms(3,2) storage_reach_inv [OF assms(1,2)]] assms(4) by blast

theorem history_append_only_witness:
  "block_at demo (db (storage_open demo ''/db'' (genesis demo_storage1) (db demo_storage1) 0)) 1 =
     Some (demo_block 1 2)"
  by (rule history_append_only [OF demo_reach1 demo_ext_ok r_into_rtranclp demo_block_at1])
    (rule storage_step.restart)

text \<open>C11: The block cache is invisible.  A read returns what the history table holds at the height
  and changes no table, no mempool and no forest; for a height SQLite cannot represent the query
  fails for ever and the retry loop ends in an overflow panic.\<close>

theorem get_block_reads_table:
  assumes "ext_ok E" and "storage_inv E s"
  shows "\<exists>c. get_block E h s =
      (if sql_bindable E h then Ok (block_at E (db s) h) else Panic Overflow, s\<lparr>old_cache := c\<rparr>) \<and>
    storage_inv E (s\<lparr>old_cache := c\<rparr>)"
  using get_block_spec [OF assms, of h] storage_inv_cache [OF assms(2)] by blast

theorem get_block_reads_table_witness:
  "\<exists>c. get_block demo 1 demo_storage1 =
      (if sql_bindable demo 1 then Ok (block_at demo (db demo_storage1) 1) else Panic Overflow,
       demo_storage1\<lparr>old_cache := c\<rparr>) \<and>
    storage_inv demo (demo_storage1\<lparr>old_cache := c\<rparr>)"
  by (rule get_block_reads_table [OF demo_ext_ok demo_storage1_inv])

text \<open>C1: What a successful \<^verbatim>\<open>apply_block\<close> has done: the block is the next one, its votes passed the
  check against the old tip's stakes, the state machine accepted it, it and its proof read back
  at its height and nothing else in the chain moved, the mempool was rebased on the new tip, and
  the waiters were notified once.\<close>

theorem apply_block_success:
  assumes "ext_ok E" and "storage_inv E s" and "apply_block E b p s = (Ok (), s')"
  shows "unat (height_of b) = Suc (unat (highest_height s)) \<and>
    highest_height s' = height_of b \<and>
    block_at E (db s') = (block_at E (db s))(height_of b \<mapsto> b) \<and>
    proof_at E (db s') = (proof_at E (db s))(height_of b \<mapsto> p) \<and>
    (\<exists>old st f new. tip_state E s = Ok old \<and>
       check_quorum E (b_header b) p (pre_tip911 E (raw_stakes E old)) = Ok () \<and>
       stf_apply_block E b old (forest s) = (Ok st, f) \<and>
       tip_state E s' = Ok new \<and> st_mempool s' = rebase E new (st_mempool s)) \<and>
    new_block_notify s' = Suc (new_block_notify s) \<and> storage_inv E s'"
  using assms(3,1,2)
proof (cases rule: apply_block_cases)
  case (stored hs st f)
  have "unat (height_of b) = Suc (unat (highest_height s)) \<and> unat (highest_height s') = unat (height_of b)"
    using stored(4,5,8) assms(2) highest_height_eq [of E s] highest_height_eq [of E s']
    by (simp add: storage_inv_def store_block_history)
  with stored check_block_Ok [OF stored(2)] assms(1,2) store_block_lookup [of E "db s" b p "db s'"]
  show ?thesis by (auto simp: ext_okD storage_inv_def word_unat_eq_iff)
qed simp

theorem apply_block_success_witness:
  "unat (height_of (demo_block 1 2)) = Suc (unat (highest_height demo_storage)) \<and>
    highest_height demo_storage1 = height_of (demo_block 1 2)"
  using apply_block_success [OF demo_ext_ok demo_storage_inv demo_apply1] by blast

text \<open>C8: Failure is atomic.  When \<^verbatim>\<open>apply_block\<close> returns an error, whichever check or SQL statement
  caused it, no table, no proof, no stake, no mempool entry and no notification has changed.\<close>

theorem apply_block_error_atomic:
  assumes "ext_ok E" and "storage_inv E s" and "apply_block E b p s = (Err e, s')"
  shows "db s' = db s \<and> st_mempool s' = st_mempool s \<and>
    new_block_notify s' = new_block_notify s \<and> genesis s' = genesis s \<and> storage_inv E s'"
  using assms(3,1,2) by (cases rule: apply_block_cases) auto

text \<open>A block at any other height than the next one is refused with the error that names both
  heights, and only the block cache may have changed.\<close>

theorem apply_block_wrong_height:
  assumes "ext_ok E" and "storage_inv E s" and "tip_state E s = Ok old"
    and "unat (highest_height s) < 2 ^ 64 - 1"
    and "unat (height_of b) \<noteq> Suc (unat (highest_height s))"
  shows "\<exists>c. apply_block E b p s =
    (Err (CannotApply (height_of b) (hd_height (state_header E old))), s\<lparr>old_cache := c\<rparr>)"
proof -
  from highest_state_spec [OF assms(1,2)] assms(3) obtain c
    where c: "highest_state E s = (Ok old, s\<lparr>old_cache := c\<rparr>)" by auto
  have "unat (hd_height (state_header E old)) = unat (highest_height s)"
    using assms(1,2,3) highest_height_eq [of E s]
    by (rule_tac tip_state_cases [OF assms(1,2)]) (auto simp: storage_inv_def)
  with assms(4,5) have "checked_add (hd_height (state_header E old)) 1 =
      Ok (hd_height (state_header E old) + 1) \<and> height_of b \<noteq> hd_height (state_header E old) + 1"
    by (auto simp: checked_add_def unat_u64_Suc)
  with c show ?thesis by (intro exI [of _ c]) (simp add: apply_block_def check_block_def)
qed

definition demo_tip0 :: demo_state where
  "demo_tip0 = \<lparr>ds_header = demo_header 0 2, ds_txs = [], ds_stakes = gc_stakes demo_genesis\<rparr>"

lemma demo_tip: "tip_state demo demo_storage = Ok demo_tip0"
  by (simp add: tip_state_def demo_storage_defs demo_tip0_def demo_header_def Let_def)

lemma demo_highest: "highest_height demo_storage = 0"
  using demo_history by (simp add: highest_height_def)

theorem apply_block_wrong_height_witness:
  "\<exists>c. apply_block demo (demo_block 5 2) [] demo_storage =
    (Err (CannotApply 5 0), demo_storage\<lparr>old_cache := c\<rparr>)"
proof -
  have "unat (height_of (demo_block 5 2)) \<noteq> Suc (unat (highest_height demo_storage))"
    by (simp add: demo_highest demo_block_def demo_header_def)
  from apply_block_wrong_height [OF demo_ext_ok demo_storage_inv demo_tip _ this]
  show ?thesis
    by (simp add: demo_highest) (simp add: demo_block_def demo_header_def demo_tip0_def)
qed

lemma demo_rejects:
  "fst (apply_block demo (demo_block 1 2) [] demo_storage) = Err (InsufficientVotes 1 0 1000001)"
  by (simp add: demo_storage_defs demo_run_defs Let_def)

theorem apply_block_error_atomic_witness:
  "db (snd (apply_block demo (demo_block 1 2) [] demo_storage)) = db demo_storage"
proof -
  have "apply_block demo (demo_block 1 2) [] demo_storage =
    (Err (InsufficientVotes 1 0 1000001), snd (apply_block demo (demo_block 1 2) [] demo_storage))"
    by (rule prod_eqI) (simp_all add: demo_rejects)
  from apply_block_error_atomic [OF demo_ext_ok demo_storage_inv this] show ?thesis by blast
qed

text \<open>C7: Liveness of \<^verbatim>\<open>apply_block\<close>: the next block, with a proof that passes the vote check, that
  the state machine accepts, whose stake transactions are new to the table and whose claimed
  stake root is the one the tables will give, is applied as soon as the database works.\<close>

theorem apply_block_accepts:
  assumes "ext_ok E" and "storage_inv E s" and "tip_state E s = Ok old"
    and "unat (height_of b) = Suc (unat (highest_height s))"
    and "check_quorum E (b_header b) p (pre_tip911 E (raw_stakes E old)) = Ok ()"
    and "stf_apply_block E b old (forest s) = (Ok st, f)"
    and "\<forall>n. \<not> sql_fault E b n" and "sql_bindable E (height_of b)"
    and "distinct (map fst (stakes (db s)) @ new_stake_keys E b (transactions b))"
    and "\<forall>d k. store_block E b p (db s) = Ok d \<and>
      get_stakeset E (height_of b) (committed E f d s) = Ok k \<longrightarrow>
      root_hash E k = hd_stakes_hash (b_header b)"
  shows "\<exists>s'. apply_block E b p s = (Ok (), s')"
proof -
  have codec: "codec_ok E" and inv: "tables_inv E (db s)"
    using assms(1,2) by (simp_all add: ext_okD storage_inv_def)
  have len: "unat (height_of b) = Suc (length (history (db s)))"
    using assms(4) highest_height_eq [OF inv] by simp
  have "unat (hd_height (state_header E old)) = length (history (db s))"
    using assms(3) by (rule_tac tip_state_cases [OF assms(1,2)]) auto
  then have "checked_add (hd_height (state_header E old)) 1 = Ok (height_of b)"
    using len by (simp add: checked_add_Ok_iff)
  with assms(5) have chk: "check_block E b p old = Ok ()" by (simp add: check_block_def)
  from store_block_succeeds [OF assms(7,8) inv len assms(9)] obtain d
    where d: "store_block E b p (db s) = Ok d" by blast
  from assms(1-3) chk assms(6) d obtain c where run: "apply_block E b p s =
      announce E (tip_state E (committed E f d s)) ((committed E f d s)\<lparr>old_cache := c\<rparr>)"
    and invc: "storage_inv E ((committed E f d s)\<lparr>old_cache := c\<rparr>)"
    by (rule apply_block_commit)
  let ?s = "(committed E f d s)\<lparr>old_cache := c\<rparr>"
  have invd: "tables_inv E (db ?s)" using invc by (simp add: storage_inv_def)
  have "unat (highest_height ?s) = unat (height_of b)"
    using highest_height_eq [OF invd] d len by (simp add: committed_def store_block_history)
  then have top: "highest_height ?s = height_of b" by (simp add: word_unat_eq_iff)
  have ne: "history (db ?s) \<noteq> []"
    using d by (auto simp: committed_def elim: store_block_Ok)
  have "block_at E (db ?s) (height_of b) = Some b"
    using store_block_lookup(1) [OF codec inv d len] by (simp add: committed_def)
  moreover obtain k where k: "get_stakeset E (height_of b) ?s = Ok k"
    using get_stakeset_Ok [OF codec invd assms(8)] by blast
  moreover have "root_hash E k = hd_stakes_hash (b_header b)"
    using assms(10) d k by simp
  ultimately have "\<exists>next. tip_state E ?s = Ok next"
    using ne top assms(8) by (simp add: tip_state_def state_at_def)
  moreover have "tip_state E (committed E f d s) = tip_state E ?s"
    by (rule tip_state_cong) simp_all
  ultimately show ?thesis using run by (auto simp: announce_def)
qed

text \<open>C9: A block is committed before its stake root is compared.  If the stakes the tables hold after
  the commit do not hash to the root the header claims, the process aborts in \<^verbatim>\<open>apply_block\<close> with
  the block in the database.  From then on, through any sequence of calls and of restarts on the
  same database, the tables stay as they are, and every call that rebuilds the state of the
  tip or applies a block aborts the process again.\<close>

theorem apply_block_bricks:
  assumes "ext_ok E" and "storage_reach E s" and "tip_state E s = Ok old"
    and "check_block E b p old = Ok ()" and "stf_apply_block E b old (forest s) = (Ok st, f)"
    and "store_block E b p (db s) = Ok d"
    and "get_stakeset E (height_of b) (committed E f d s) = Ok k"
    and "root_hash E k \<noteq> hd_stakes_hash (b_header b)"
  shows "\<exists>s'. apply_block E b p s = (Panic AssertFailed, s') \<and> db s' = d \<and>
    (\<forall>s''. (storage_step E)\<^sup>*\<^sup>* s' s'' \<longrightarrow> db s'' = d \<and>
       fst (highest_state E s'') = Panic AssertFailed \<and>
       (\<forall>b' p'. fst (apply_block E b' p' s'') = Panic AssertFailed))"
proof -
  note sinv = storage_reach_inv [OF assms(2,1)]
  have codec: "codec_ok E" and inv: "tables_inv E (db s)"
    using assms(1) sinv by (simp_all add: ext_okD storage_inv_def)
  from assms(1) sinv assms(3-6) obtain c where run: "apply_block E b p s =
      announce E (tip_state E (committed E f d s)) ((committed E f d s)\<lparr>old_cache := c\<rparr>)"
    and invc: "storage_inv E ((committed E f d s)\<lparr>old_cache := c\<rparr>)"
    and len: "unat (height_of b) = Suc (length (history (db s)))"
    by (rule apply_block_commit)
  let ?s = "(committed E f d s)\<lparr>old_cache := c\<rparr>"
  have "unat (highest_height ?s) = unat (height_of b)"
    using highest_height_eq [of E ?s] invc assms(6) len
    by (simp add: committed_def store_block_history storage_inv_def)
  then have top: "highest_height ?s = height_of b" by (simp add: word_unat_eq_iff)
  have ne: "history (db ?s) \<noteq> []" and bind: "sql_bindable E (height_of b)"
    using assms(6) by (auto simp: committed_def elim: store_block_Ok)
  have "block_at E (db ?s) (height_of b) = Some b"
    using store_block_lookup(1) [OF codec inv assms(6) len] by (simp add: committed_def)
  with ne top bind assms(7,8) have bad: "tip_state E ?s = Panic AssertFailed"
    by (simp add: tip_state_def state_at_def)
  moreover have "tip_state E (committed E f d s) = tip_state E ?s"
    by (rule tip_state_cong) simp_all
  ultimately have ap: "apply_block E b p s = (Panic AssertFailed, ?s)"
    using run by (simp add: announce_def)
  then have "storage_reach E ?s"
    using storage_reach.step [OF assms(2) storage_step.new_block] by blast
  then have "bricked E d ?s"
    using bad ne invc storage_reach_genesis_rows [OF _ assms(1)]
    by (simp add: bricked_def committed_def)
  from bricked_for_ever [OF _ assms(1) this] bricked_fails [OF _ assms(1)] ap show ?thesis
    by (intro exI [of _ ?s]) (auto simp: bricked_def committed_def)
qed

text \<open>C14: The past is stable: applying a block does not change the stake set reconstructed at any
  earlier height.\<close>

theorem stakeset_stable:
  assumes "ext_ok E" and "storage_inv E s" and "apply_block E b p s = (r, s')"
    and "h \<le> highest_height s"
  shows "get_stakeset E h s' = get_stakeset E h s"
  using assms(3,1,2)
proof (cases rule: apply_block_cases)
  case (stored hs st f)
  have "unat (highest_height s) = length (history (db s))"
    using assms(2) highest_height_eq [of E s] by (simp add: storage_inv_def)
  with stored(5) assms(4) have "h < height_of b"
    by (simp add: word_less_nat_alt word_le_nat_alt)
  from store_block_old_stakes [OF stored(4) this] stored(7) show ?thesis
    by (simp add: get_stakeset_def)
qed (simp add: get_stakeset_def)





section \<open>Further witnesses\<close>

lemma demo_quorum:
  "check_quorum demo (b_header (demo_block 1 r)) (demo_cproof 1)
     (pre_tip911 demo (raw_stakes demo demo_tip0)) = Ok ()"
  by (simp add: demo_tip0_def demo_genesis_def demo_run_defs)

lemma demo_stf:
  "stf_apply_block demo (demo_block 1 r) demo_tip0 (forest demo_storage) =
    (Ok \<lparr>ds_header = demo_header 1 r, ds_txs = [], ds_stakes = gc_stakes demo_genesis\<rparr>, 1)"
  by (simp add: demo_tip0_def demo_apply_block_def demo_block_def demo_header_def demo_storage_def
      storage_open_def Let_def)

lemma demo_stakeset:
  assumes "store_block demo (demo_block 1 r) p (db demo_storage) = Ok d"
  shows "get_stakeset demo 1 (committed demo f d demo_storage) = Ok (gc_stakes demo_genesis)"
  using assms
  by (auto simp: demo_storage_defs get_stakeset_def committed_def query_def Let_def store_block_def
      exec_insert_def table_insert_def demo_block_def demo_header_def demo_doc_def)

lemma demo_store:
  obtains d where "store_block demo (demo_block 1 r) p (db demo_storage) = Ok d"
  by (simp add: demo_storage_defs query_def store_block_def
      exec_insert_def table_insert_def demo_block_def demo_header_def)

theorem apply_block_accepts_witness:
  "\<exists>s'. apply_block demo (demo_block 1 2) (demo_cproof 1) demo_storage = (Ok (), s')"
proof (rule apply_block_accepts [OF demo_ext_ok demo_storage_inv demo_tip _ demo_quorum demo_stf])
  show "unat (height_of (demo_block 1 2)) = Suc (unat (highest_height demo_storage))"
    by (simp add: demo_highest demo_block_def demo_header_def)
  show "distinct (map fst (stakes (db demo_storage)) @
      new_stake_keys demo (demo_block 1 2) (transactions (demo_block 1 2)))"
    by (simp add: demo_storage_defs new_stake_keys_def demo_block_def Let_def)
  show "\<forall>d k. store_block demo (demo_block 1 2) (demo_cproof 1) (db demo_storage) = Ok d \<and>
      get_stakeset demo (height_of (demo_block 1 2)) (committed demo 1 d demo_storage) = Ok k \<longrightarrow>
      root_hash demo k = hd_stakes_hash (b_header (demo_block 1 2))"
    using demo_stakeset [of 2 "demo_cproof 1" _ 1]
    by (auto simp: demo_block_def demo_header_def demo_root_def demo_genesis_def)
qed (simp_all add: demo_block_def demo_header_def)

theorem apply_block_bricks_witness:
  "\<exists>s'. apply_block demo (demo_block 1 7) (demo_cproof 1) demo_storage = (Panic AssertFailed, s') \<and>
    fst (highest_state demo (storage_open demo ''/db'' (genesis s') (db s') 5)) = Panic AssertFailed"
proof -
  obtain d where d: "store_block demo (demo_block 1 7) (demo_cproof 1) (db demo_storage) = Ok d"
    by (rule demo_store)
  have "check_block demo (demo_block 1 7) (demo_cproof 1) demo_tip0 = Ok ()"
    using demo_quorum [of 7] unfolding check_block_def
    by (simp add: demo_tip0_def checked_add_def) (simp add: demo_header_def demo_block_def)
  moreover have "get_stakeset demo (height_of (demo_block 1 7)) (committed demo 1 d demo_storage) =
      Ok (gc_stakes demo_genesis)"
    using demo_stakeset [OF d] by (simp add: demo_block_def demo_header_def)
  moreover have "root_hash demo (gc_stakes demo_genesis) \<noteq> hd_stakes_hash (b_header (demo_block 1 7))"
    by (simp add: demo_root_def demo_genesis_def demo_block_def demo_header_def)
  ultimately obtain s' where
    "apply_block demo (demo_block 1 7) (demo_cproof 1) demo_storage = (Panic AssertFailed, s')"
    and after: "\<And>s''. (storage_step demo)\<^sup>*\<^sup>* s' s'' \<Longrightarrow> fst (highest_state demo s'') = Panic AssertFailed"
    using apply_block_bricks [OF demo_ext_ok demo_reach demo_tip _ demo_stf d] by blast
  moreover have "(storage_step demo)\<^sup>*\<^sup>* s' (storage_open demo ''/db'' (genesis s') (db s') 5)"
    by (rule r_into_rtranclp) (rule storage_step.restart)
  ultimately show ?thesis by blast
qed

theorem stakeset_stable_witness:
  "get_stakeset demo 0 demo_storage1 = get_stakeset demo 0 demo_storage"
  by (rule stakeset_stable [OF demo_ext_ok demo_storage_inv demo_apply1]) simp



text \<open>The demo chain at height 1.\<close>

lemma demo_state1:
  "state_at demo demo_storage1 1 =
     Ok (Some \<lparr>ds_header = demo_header 1 2, ds_txs = [], ds_stakes = gc_stakes demo_genesis\<rparr>)"
proof -
  obtain d where d: "store_block demo (demo_block 1 2) (demo_cproof 1) (db demo_storage) = Ok d"
    by (rule demo_store)
  have "db demo_storage1 = d \<and> genesis demo_storage1 = genesis demo_storage"
    using demo_apply1 demo_ext_ok demo_storage_inv
    by (cases rule: apply_block_cases) (use d in auto)
  then have "get_stakeset demo 1 demo_storage1 = get_stakeset demo 1 (committed demo 0 d demo_storage)"
    by (simp add: get_stakeset_def committed_def)
  with demo_stakeset [OF d, of 0] demo_block_at1 show ?thesis
    by (simp add: state_at_def demo_block_def demo_header_def demo_root_def demo_genesis_def)
qed

lemma demo_highest1: "highest_height demo_storage1 = 1"
proof -
  have "length (history (db demo_storage1)) = 1"
    using st.put_Ok [OF _ demo_apply1] demo_ext_ok demo_storage_inv demo_history
    by (simp add: tip_height_def)
  with highest_height_eq [of demo demo_storage1] demo_storage1_inv show ?thesis
    by (simp add: storage_inv_def word_unat_eq_iff)
qed

lemma demo_tip1: "\<exists>st. tip_state demo demo_storage1 = Ok st"
  using demo_apply1 demo_ext_ok demo_storage_inv by (cases rule: apply_block_cases) auto

end
