(* ===== verification/Wire.thy ===== *)
theory Wire
  imports Storage_Props
begin

text \<open>
  What travels between nodes: the answers of the RPC protocol \<^verbatim>\<open>melprot\<close>, and the code the
  RPC server and its clients rely on that is not in this repository (\<^verbatim>\<open>base64\<close>,
  \<^verbatim>\<open>lz4_flex\<close>, \<^verbatim>\<open>novasmt\<close> trees, \<^verbatim>\<open>lru\<close>), the fields of the record \<open>wire\<close>.
\<close>

section \<open>Answers\<close>

record state_summary =
  ss_netid :: netid
  ss_height :: u64
  ss_header :: header
  ss_proof :: cproof

record abbr_block =
  ab_header :: header
  ab_txhashes :: "hashval list"
  ab_proposer_action :: "proposer_action option"

text \<open>What a remote call comes to: an answer, an error of the transport, or nothing in time.\<close>

datatype 'a reply = Answer 'a | Failed | NoAnswer

text \<open>\<^verbatim>\<open>.timeout(..).await.context(c1)?.context(c2)?\<close>\<close>

fun rpc :: "string \<Rightarrow> string \<Rightarrow> 'a reply \<Rightarrow> 'a res" where
  "rpc c1 c2 (Answer v) = Ok v"
| "rpc c1 c2 Failed = Err (Context c2 RpcFailed)"
| "rpc c1 c2 NoAnswer = Err (Context c1 TimedOut)"

section \<open>Code outside the repository\<close>

record ('s, 't) wire =
  \<comment> \<open>base64, lz4\_flex and stdcode of a batch of blocks with their proofs\<close>
  b64_encode :: "bytes \<Rightarrow> string"
  b64_decode :: "string \<Rightarrow> bytes option"
  lz4_compress :: "bytes \<Rightarrow> bytes"
  lz4_decompress :: "bytes \<Rightarrow> bytes option"
  enc_batch :: "block list \<times> cproof list \<Rightarrow> bytes"
  dec_batch :: "bytes \<Rightarrow> (block list \<times> cproof list) option"
  \<comment> \<open>melstructs, tmelcrypt\<close>
  abbreviate :: "block \<Rightarrow> abbr_block"
  hash_hash :: "hashval \<Rightarrow> hashval"
  \<comment> \<open>the trees of a sealed state, and trees in memory with \<^verbatim>\<open>SmtMapping\<close> on them\<close>
  coins_get :: "'s \<Rightarrow> hashval \<Rightarrow> bytes \<times> hashval list"
  history_get :: "'s \<Rightarrow> hashval \<Rightarrow> bytes \<times> hashval list"
  pools_get :: "'s \<Rightarrow> hashval \<Rightarrow> bytes \<times> hashval list"
  tree_empty :: 't
  tree_insert :: "hashval \<Rightarrow> tx \<Rightarrow> 't \<Rightarrow> 't"
  tree_get :: "'t \<Rightarrow> hashval \<Rightarrow> bytes \<times> hashval list"
  compress :: "hashval list \<Rightarrow> bytes"
  \<comment> \<open>lru and moka: \<open>touch\<close> is what a lookup does to the order of the entries\<close>
  evict_recent :: "(hashval \<times> nat) list \<Rightarrow> (hashval \<times> nat) list"
  touch_summary :: "u64 \<Rightarrow> (u64 \<times> state_summary) list \<Rightarrow> (u64 \<times> state_summary) list"
  evict_summary :: "(u64 \<times> state_summary) list \<Rightarrow> (u64 \<times> state_summary) list"
  touch_smt :: "u64 \<Rightarrow> (u64 \<times> 't) list \<Rightarrow> (u64 \<times> 't) list"
  evict_smt :: "(u64 \<times> 't) list \<Rightarrow> (u64 \<times> 't) list"
  evict_abbr :: "(u64 \<times> (abbr_block \<times> cproof)) list \<Rightarrow> (u64 \<times> (abbr_block \<times> cproof)) list"

section \<open>What the code relies on\<close>

text \<open>The codecs of the batch transport round trip.\<close>

definition batch_codec_ok :: "('s, 't, 'y) wire_scheme \<Rightarrow> bool" where
  "batch_codec_ok W \<longleftrightarrow>
     (\<forall>x. b64_decode W (b64_encode W x) = Some x) \<and>
     (\<forall>x. lz4_decompress W (lz4_compress W x) = Some x) \<and>
     (\<forall>x. dec_batch W (enc_batch W x) = Some x)"

text \<open>Caches invent nothing, and a lookup only reorders.\<close>

definition touch_ok :: "('k \<Rightarrow> ('k \<times> 'v) list \<Rightarrow> ('k \<times> 'v) list) \<Rightarrow> bool" where
  "touch_ok touch \<longleftrightarrow> (\<forall>k c. map_of (touch k c) = map_of c)"

definition caches_ok :: "('s, 't, 'y) wire_scheme \<Rightarrow> bool" where
  "caches_ok W \<longleftrightarrow>
     evict_ok (evict_recent W) \<and> evict_ok (evict_summary W) \<and> evict_ok (evict_smt W) \<and>
     evict_ok (evict_abbr W) \<and> touch_ok (touch_summary W) \<and> touch_ok (touch_smt W)"

text \<open>A state rebuilt from a block gives back the block's transactions.\<close>

definition to_block_ok :: "('f, 's, 'u, 'k, 'x) ext_scheme \<Rightarrow> bool" where
  "to_block_ok E \<longleftrightarrow> (\<forall>b k f. transactions (to_block E (from_block E b k f)) = transactions b)"

lemma coherent_touch: "touch_ok touch \<Longrightarrow> coherent src c \<Longrightarrow> coherent src (touch k c)"
  by (simp add: touch_ok_def coherent_def)

section \<open>A demo instance\<close>

text \<open>
  Text is one character per byte, compression does nothing, a tree is the list of its
  entries.
\<close>

definition put_batch :: "block list \<times> cproof list \<Rightarrow> bytes" where
  "put_batch = (\<lambda>(bs, ps). put_list put_block bs @ put_list put_proof ps)"

definition get_batch :: "bytes \<Rightarrow> ((block list \<times> cproof list) \<times> bytes) option" where
  "get_batch x = and_then (get_list get_block_bytes x) (\<lambda>bs r.
     and_then (get_list get_proof_bytes r) (\<lambda>ps r. Some ((bs, ps), r)))"

lemma get_put_batch: "get_batch (put_batch x @ r) = Some (x, r)"
  by (cases x) (simp add: get_batch_def put_batch_def codec_laws get_put_list)

lemma exactly_get_put_batch [simp]: "exactly (get_batch (put_batch x)) = Some x"
  using get_put_batch [of x "[]"] by (simp add: exactly_def)

definition demo_wire :: "(demo_state, (hashval \<times> tx) list) wire" where
  "demo_wire = \<lparr>
     b64_encode = map (\<lambda>b. char_of (unat b)),
     b64_decode = (\<lambda>s. Some (map (\<lambda>c. of_nat (of_char c)) s)),
     lz4_compress = (\<lambda>x. x), lz4_decompress = Some,
     enc_batch = put_batch, dec_batch = (\<lambda>x. exactly (get_batch x)),
     abbreviate = (\<lambda>b. \<lparr>ab_header = b_header b,
       ab_txhashes = map (hash_nosigs demo) (transactions b),
       ab_proposer_action = b_proposer_action b\<rparr>),
     hash_hash = (\<lambda>h. h + 1),
     coins_get = (\<lambda>s k. ([], [k])), history_get = (\<lambda>s k. ([], [k])), pools_get = (\<lambda>s k. ([], [k])),
     tree_empty = [], tree_insert = AList.update,
     tree_get = (\<lambda>t k. (case map_of t k of None \<Rightarrow> [] | Some x \<Rightarrow> put_tx x, [k])),
     compress = (\<lambda>p. concat (map put_word p)),
     evict_recent = (\<lambda>c. c), touch_summary = (\<lambda>k c. c), evict_summary = (\<lambda>c. c),
     touch_smt = (\<lambda>k c. c), evict_smt = (\<lambda>c. c), evict_abbr = (\<lambda>c. c)\<rparr>"

lemma byte_mod [simp]: "unat (b :: u8) mod 256 = unat b"
  using unat_bound [of b] by simp

lemma demo_wire_ok:
  "batch_codec_ok demo_wire" "caches_ok demo_wire" "to_block_ok demo"
  by (simp_all add: batch_codec_ok_def caches_ok_def touch_ok_def to_block_ok_def demo_wire_def
      comp_def)

end
