(* ===== verification/Node.thy ===== *)
theory Node
  imports Wire
begin

text \<open>
  \<^verbatim>\<open>src/node.rs\<close>: the RPC server of a node.  The record \<open>node\<close> is \<^verbatim>\<open>NodeRpcImpl\<close> without
  the network handles; each RPC method is a definition that takes the node and returns its
  answer with the node it leaves.  What the network and the clock say is an argument: the
  routes of the swarm, the present time in nanoseconds, the answers of the coin index.
  The caches are behind locks that are held for one access each, so the steps of two
  requests may interleave; here every request runs to its end.
\<close>

section \<open>State\<close>

record ('f, 'u, 't) node =
  network :: netid
  nd_storage :: "('f, 'u) storage"
  recent :: "(hashval \<times> nat) list"
  summary :: "(u64 \<times> state_summary) list"
  coin_smts :: "(u64 \<times> 't) list"
  abbr_block_cache :: "(u64 \<times> (abbr_block \<times> cproof)) list"

text \<open>\<^verbatim>\<open>NodeRpcImpl::start\<close>.\<close>

definition node_start :: "netid \<Rightarrow> ('f, 'u) storage \<Rightarrow> ('f, 'u, 't) node" where
  "node_start netid s =
     \<lparr>network = netid, nd_storage = s, recent = [], summary = [], coin_smts = [],
      abbr_block_cache = []\<rparr>"

text \<open>A call into the storage, and \<^verbatim>\<open>?\<close> on an optional value.\<close>

definition on_storage ::
    "(('f, 'u) storage \<Rightarrow> 'a res \<times> ('f, 'u) storage) \<Rightarrow> ('f, 'u, 't) node \<Rightarrow>
     'a res \<times> ('f, 'u, 't) node" where
  "on_storage f n = (let (r, s) = f (nd_storage n) in (r, n\<lparr>nd_storage := s\<rparr>))"

definition bind_some ::
    "'a option res \<times> 'n \<Rightarrow> ('a \<Rightarrow> 'n \<Rightarrow> 'b option res \<times> 'n) \<Rightarrow> 'b option res \<times> 'n" where
  "bind_some m f =
     bind_st m (\<lambda>ov n. case ov of None \<Rightarrow> (Ok None, n) | Some v \<Rightarrow> f v n)"

section \<open>Transactions\<close>

datatype tx_error = RecentlySeen | Invalid err

text \<open>
  \<open>Accepted ns\<close>: the transaction is in the mempool and is being sent on to the neighbours
  \<open>ns\<close>.
\<close>

datatype send_reply = Accepted "string list" | Refused tx_error | SendPanic panic

definition recently_seen ::
    "('f, 's, 'u, 'k, 'x) ext_scheme \<Rightarrow> nat \<Rightarrow> tx \<Rightarrow> ('f, 'u, 't) node \<Rightarrow> bool" where
  "recently_seen E now t n =
     (case map_of (recent n) (hash_nosigs E t) of
        Some val \<Rightarrow> now - val < 10 * 10 ^ 9
      | None \<Rightarrow> False)"

definition send_tx ::
    "('f, 's, 'u, 'k, 'x) ext_scheme \<Rightarrow> ('s, 't, 'y) wire_scheme \<Rightarrow> nat \<Rightarrow> string list \<Rightarrow> tx \<Rightarrow>
     ('f, 'u, 't) node \<Rightarrow> send_reply \<times> ('f, 'u, 't) node" where
  "send_tx E W now routes t n =
     (if recently_seen E now t n then (Refused RecentlySeen, n)
      else
        let n = n\<lparr>recent := cache_put (evict_recent W) (hash_nosigs E t) now (recent n)\<rparr>;
            (r, m) = apply_transaction E t (st_mempool (nd_storage n));
            n = n\<lparr>nd_storage := (nd_storage n)\<lparr>st_mempool := m\<rparr>\<rparr>
        in case r of
             Ok _ \<Rightarrow> (Accepted (take 16 routes), n)
           | Err e \<Rightarrow> (Refused (Invalid e), n)
           | Panic p \<Rightarrow> (SendPanic p, n))"

section \<open>Blocks\<close>

definition get_abbr_block ::
    "('f, 's, 'u, 'k, 'x) ext_scheme \<Rightarrow> ('s, 't, 'y) wire_scheme \<Rightarrow> u64 \<Rightarrow>
     ('f, 'u, 't) node \<Rightarrow> (abbr_block \<times> cproof) option res \<times> ('f, 'u, 't) node" where
  "get_abbr_block E W height n =
     (case map_of (abbr_block_cache n) height of
        Some c \<Rightarrow> (Ok (Some c), n)
      | None \<Rightarrow>
          bind_some (on_storage (get_block E height) n) (\<lambda>block n.
          bind_some (get_consensus E height (nd_storage n), n) (\<lambda>proof n.
          let summ = (abbreviate W block, proof) in
          (Ok (Some summ), n\<lparr>abbr_block_cache :=
             cache_put (evict_abbr W) height summ (abbr_block_cache n)\<rparr>))))"

definition get_summary ::
    "('f, 's, 'u, 'k, 'x) ext_scheme \<Rightarrow> ('s, 't, 'y) wire_scheme \<Rightarrow> ('f, 'u, 't) node \<Rightarrow>
     state_summary res \<times> ('f, 'u, 't) node" where
  "get_summary E W n =
     bind_st (on_storage (highest_state E) n) (\<lambda>highest n.
     let header = state_header E highest;
         res = map_of (summary n) (hd_height header);
         n = n\<lparr>summary := touch_summary W (hd_height header) (summary n)\<rparr>
     in case res of
          Some res \<Rightarrow> (Ok res, n)
        | None \<Rightarrow>
            bind_st (get_consensus E (hd_height header) (nd_storage n), n) (\<lambda>oproof n.
            let summ = \<lparr>ss_netid = network n, ss_height = hd_height header, ss_header = header,
                  ss_proof = (case oproof of Some proof \<Rightarrow> proof | None \<Rightarrow> [])\<rparr>
            in (Ok summ, n\<lparr>summary := cache_put (evict_summary W) (hd_height header) summ (summary n)\<rparr>)))"

definition node_get_block ::
    "('f, 's, 'u, 'k, 'x) ext_scheme \<Rightarrow> u64 \<Rightarrow> ('f, 'u, 't) node \<Rightarrow>
     block option res \<times> ('f, 'u, 't) node" where
  "node_get_block E height n = on_storage (get_block E height) n"

text \<open>
  A batch of blocks.  \<open>lz4_push\<close> is one round of the loop; the sizes are those of the
  encodings, and the sum of two buffers that are in memory and the limit fits a \<^verbatim>\<open>usize\<close>.
  The loop does not end when a block has no proof, so \<open>None\<close> is the value of a call that
  never returns.
\<close>

type_synonym batch = "nat \<times> block list \<times> cproof list"

definition lz4_push ::
    "('f, 's, 'u, 'k, 'x) ext_scheme \<Rightarrow> nat \<Rightarrow> block \<Rightarrow> cproof \<Rightarrow> batch \<Rightarrow> batch" where
  "lz4_push E size_limit block proof = (\<lambda>(total_count, accum, proof_accum).
     let total_count = total_count + length (enc_block E block) + length (enc_proof E proof);
         accum = accum @ [block];
         proof_accum = proof_accum @ [proof];
         accum = (if size_limit < total_count \<and> 1 < length accum then butlast accum else accum)
     in (total_count, accum, proof_accum))"

partial_function (option) lz4_loop ::
    "('f, 's, 'u, 'k, 'x) ext_scheme \<Rightarrow> nat \<Rightarrow> u64 \<Rightarrow> batch \<Rightarrow> ('f, 'u, 't) node \<Rightarrow>
     ((block list \<times> cproof list) option res \<times> ('f, 'u, 't) node) option" where
  "lz4_loop E size_limit height acc n =
     (if fst acc \<le> size_limit then
        case node_get_block E height n of
          (Ok (Some block), n) \<Rightarrow>
            (case get_consensus E height (nd_storage n) of
               Ok (Some proof) \<Rightarrow>
                 (case checked_add height 1 of
                    Ok height \<Rightarrow> lz4_loop E size_limit height (lz4_push E size_limit block proof acc) n
                  | Err e \<Rightarrow> Some (Err e, n)
                  | Panic p \<Rightarrow> Some (Panic p, n))
             | Ok None \<Rightarrow> lz4_loop E size_limit height acc n
             | Err e \<Rightarrow> Some (Err e, n)
             | Panic p \<Rightarrow> Some (Panic p, n))
        | (Ok None, n) \<Rightarrow>
            Some (Ok (if fst (snd acc) = [] then None else Some (snd acc)), n)
        | (Err e, n) \<Rightarrow> Some (Err e, n)
        | (Panic p, n) \<Rightarrow> Some (Panic p, n)
      else Some (Ok (Some (snd acc)), n))"

definition lz4_text :: "('s, 't, 'y) wire_scheme \<Rightarrow> block list \<times> cproof list \<Rightarrow> string" where
  "lz4_text W acc = b64_encode W (lz4_compress W (enc_batch W acc))"

definition get_lz4_blocks ::
    "('f, 's, 'u, 'k, 'x) ext_scheme \<Rightarrow> ('s, 't, 'y) wire_scheme \<Rightarrow> u64 \<Rightarrow> nat \<Rightarrow>
     ('f, 'u, 't) node \<Rightarrow> (string option res \<times> ('f, 'u, 't) node) option" where
  "get_lz4_blocks E W height size_limit n =
     (case lz4_loop E (min size_limit 10000000) height (0, [], []) n of
        None \<Rightarrow> None
      | Some r \<Rightarrow> Some (bind_st r (\<lambda>oacc n. (Ok (map_option (lz4_text W) oacc), n))))"

section \<open>Proofs about a state\<close>

datatype substate = Coins | History | Pools | Stakes | Transactions

text \<open>\<^verbatim>\<open>get_coin_tree\<close>: the tree of the transactions of a block.\<close>

definition get_coin_tree ::
    "('f, 's, 'u, 'k, 'x) ext_scheme \<Rightarrow> ('s, 't, 'y) wire_scheme \<Rightarrow> u64 \<Rightarrow>
     ('f, 'u, 't) node \<Rightarrow> 't res \<times> ('f, 'u, 't) node" where
  "get_coin_tree E W height n =
     (let otree = map_of (coin_smts n) height;
          n = n\<lparr>coin_smts := touch_smt W height (coin_smts n)\<rparr>
      in case otree of
           Some v \<Rightarrow> (Ok v, n)
         | None \<Rightarrow>
             bind_st (on_storage (get_state E height) n) (\<lambda>ost n.
             bind_st (option_to_res (NotConfirmed height) ost, n) (\<lambda>state n.
             let mapping = fold (\<lambda>t. tree_insert W (hash_nosigs E t) t)
                   (transactions (to_block E state)) (tree_empty W)
             in (Ok mapping, n\<lparr>coin_smts := cache_put (evict_smt W) height mapping (coin_smts n)\<rparr>))))"

definition get_smt_branch ::
    "('f, 's, 'u, 'k, 'x) ext_scheme \<Rightarrow> ('s, 't, 'y) wire_scheme \<Rightarrow> u64 \<Rightarrow> substate \<Rightarrow> hashval \<Rightarrow>
     ('f, 'u, 't) node \<Rightarrow> (bytes \<times> bytes) option res \<times> ('f, 'u, 't) node" where
  "get_smt_branch E W height elem key n =
     bind_some (on_storage (get_state E height) n) (\<lambda>state n.
     case get_coin_tree E W height n of
       (Ok ctree, n) \<Rightarrow>
         let found = (\<lambda>(v, proof). Ok (Some (v, compress W proof))) in
         (case elem of
            Coins \<Rightarrow> found (coins_get W state key)
          | History \<Rightarrow> found (history_get W state key)
          | Pools \<Rightarrow> found (pools_get W state key)
          | Stakes \<Rightarrow> Panic TodoReached
          | Transactions \<Rightarrow> found (tree_get W ctree key), n)
     | (Err e, n) \<Rightarrow> (Ok None, n)
     | (Panic p, n) \<Rightarrow> (Panic p, n))"

definition get_stakers_raw ::
    "('f, 's, 'u, 'k, 'x) ext_scheme \<Rightarrow> ('s, 't, 'y) wire_scheme \<Rightarrow> u64 \<Rightarrow>
     ('f, 'u, 't) node \<Rightarrow> (hashval \<rightharpoonup> bytes) option res \<times> ('f, 'u, 't) node" where
  "get_stakers_raw E W height n =
     bind_some (on_storage (get_state E height) n) (\<lambda>state n.
       (Ok (Some (map_of (rev (map (\<lambda>(k, v). (hash_hash W k, enc_doc E v))
          (stakes_iter E (raw_stakes E state)))))), n))"

section \<open>Coins\<close>

record spend =
  spend_txhash :: hashval
  spend_height :: u64

record coin_info =
  create_txhash :: hashval
  create_index :: u8
  create_height :: u64
  ci_covhash :: hashval
  spend_info :: "spend option"

text \<open>The queries the code makes to the coin index (\<^verbatim>\<open>melblkidx\<close>), a parameter.\<close>

record coin_index =
  unspent_by :: "hashval \<Rightarrow> u64 \<Rightarrow> coin_info list"
  spent_between :: "hashval \<Rightarrow> u64 \<Rightarrow> u64 \<Rightarrow> coin_info list"
  created_between :: "hashval \<Rightarrow> u64 \<Rightarrow> u64 \<Rightarrow> coin_info list"
  created_as :: "hashval \<Rightarrow> u8 \<Rightarrow> coin_info list"

type_synonym coin_id = "hashval \<times> u8"

datatype coin_change = Add coin_id | Delete coin_id hashval

datatype coin_spend_status = NotSpent | Spent hashval u64

text \<open>
  \<^verbatim>\<open>get_indexer\<close>: wait, a second at a time, until the index has seen the height that was the
  tip at the call.  \<open>max_height k\<close> is what the index says after \<open>k\<close> seconds; the value is
  the number of seconds waited.
\<close>

partial_function (option) indexer_wait :: "(nat \<Rightarrow> u64) \<Rightarrow> u64 \<Rightarrow> nat \<Rightarrow> nat option" where
  "indexer_wait max_height height k =
     (if max_height k < height then indexer_wait max_height height (Suc k) else Some k)"

definition get_indexer ::
    "(coin_index \<times> (nat \<Rightarrow> u64)) option \<Rightarrow> ('f, 'u, 't) node \<Rightarrow> coin_index option option" where
  "get_indexer ixs n =
     (case ixs of
        None \<Rightarrow> Some None
      | Some (ix, max_height) \<Rightarrow>
          map_option (\<lambda>_. Some ix) (indexer_wait max_height (highest_height (nd_storage n)) 0))"

definition coin_id_of :: "coin_info \<Rightarrow> coin_id" where
  "coin_id_of c = (create_txhash c, create_index c)"

definition get_some_coins :: "coin_index option \<Rightarrow> u64 \<Rightarrow> hashval \<Rightarrow> coin_id list option" where
  "get_some_coins oix height covhash =
     map_option (\<lambda>ix. map coin_id_of (unspent_by ix covhash height)) oix"

text \<open>\<^verbatim>\<open>coin.spend_info.unwrap()\<close> on every deleted coin.\<close>

fun deletions :: "coin_info list \<Rightarrow> coin_change list res" where
  "deletions [] = Ok []"
| "deletions (c # cs) =
     (case spend_info c of
        None \<Rightarrow> Panic ExpectFailed
      | Some info \<Rightarrow>
          bind_res (deletions cs) (\<lambda>ds. Ok (Delete (coin_id_of c) (spend_txhash info) # ds)))"

definition get_coin_changes ::
    "('f, 's, 'u, 'k, 'x) ext_scheme \<Rightarrow> coin_index option \<Rightarrow> u64 \<Rightarrow> hashval \<Rightarrow>
     ('f, 'u, 't) node \<Rightarrow> coin_change list option res \<times> ('f, 'u, 't) node" where
  "get_coin_changes E oix height covhash n =
     bind_some (on_storage (get_block E height) n) (\<lambda>_ n.
     bind_some (Ok oix, n) (\<lambda>ix n.
     let deleted_coins = spent_between ix covhash height height;
         added_coins = created_between ix covhash height height;
         added = map (\<lambda>c. Add (coin_id_of c)) added_coins
     in (bind_res (deletions deleted_coins) (\<lambda>deleted. Ok (Some (added @ deleted))), n)))"

definition get_coin_spend :: "coin_index option \<Rightarrow> coin_id \<Rightarrow> coin_spend_status option" where
  "get_coin_spend oix coin =
     (case oix of
        None \<Rightarrow> None
      | Some ix \<Rightarrow>
          (case created_as ix (fst coin) (snd coin) of
             [] \<Rightarrow> None
           | c # _ \<Rightarrow>
               Some (case spend_info c of
                  Some info \<Rightarrow> Spent (spend_txhash info) (spend_height info)
                | None \<Rightarrow> NotSpent)))"

end
