(* ===== verification/Node_Inv.thy ===== *)
theory Node_Inv
  imports Node
begin

text \<open>
  What every RPC request keeps: the storage invariant, and that no cache of the node
  disagrees with the tables.  Each request is \<open>quiet\<close>: it changes caches only.
\<close>

section \<open>The invariant\<close>

definition abbr_at ::
    "('f, 's, 'u, 'k, 'x) ext_scheme \<Rightarrow> ('s, 't, 'y) wire_scheme \<Rightarrow> tables \<Rightarrow> u64 \<Rightarrow>
     (abbr_block \<times> cproof) option" where
  "abbr_at E W d h =
     (case (block_at E d h, proof_at E d h) of
        (Some b, Some p) \<Rightarrow> Some (abbreviate W b, p)
      | _ \<Rightarrow> None)"

definition summary_at ::
    "('f, 's, 'u, 'k, 'x) ext_scheme \<Rightarrow> netid \<Rightarrow> tables \<Rightarrow> u64 \<Rightarrow> state_summary option" where
  "summary_at E net d h =
     (case (block_at E d h, proof_at E d h) of
        (Some b, Some p) \<Rightarrow>
          Some \<lparr>ss_netid = net, ss_height = h, ss_header = b_header b, ss_proof = p\<rparr>
      | _ \<Rightarrow> None)"

definition tree_of ::
    "('f, 's, 'u, 'k, 'x) ext_scheme \<Rightarrow> ('s, 't, 'y) wire_scheme \<Rightarrow> tx list \<Rightarrow> 't" where
  "tree_of E W txs = fold (\<lambda>t. tree_insert W (hash_nosigs E t) t) txs (tree_empty W)"

definition tree_at ::
    "('f, 's, 'u, 'k, 'x) ext_scheme \<Rightarrow> ('s, 't, 'y) wire_scheme \<Rightarrow> tables \<Rightarrow> u64 \<Rightarrow> 't option" where
  "tree_at E W d h = map_option (\<lambda>b. tree_of E W (transactions b)) (block_at E d h)"

text \<open>A summary of height 0, the genesis, is the one thing a cache holds that no table does.\<close>

definition node_inv ::
    "('f, 's, 'u, 'k, 'x) ext_scheme \<Rightarrow> ('s, 't, 'y) wire_scheme \<Rightarrow> ('f, 'u, 't) node \<Rightarrow> bool" where
  "node_inv E W n \<longleftrightarrow>
     storage_inv E (nd_storage n) \<and>
     coherent (abbr_at E W (db (nd_storage n))) (abbr_block_cache n) \<and>
     (\<forall>h v. map_of (summary n) h = Some v \<longrightarrow> h = 0 \<or>
        summary_at E (network n) (db (nd_storage n)) h = Some v) \<and>
     coherent (tree_at E W (db (nd_storage n))) (coin_smts n)"

definition node_ext_ok ::
    "('f, 's, 'u, 'k, 'x) ext_scheme \<Rightarrow> ('s, 't, 'y) wire_scheme \<Rightarrow> bool" where
  "node_ext_ok E W \<longleftrightarrow> ext_ok E \<and> sql_range_ok E \<and> caches_ok W \<and> to_block_ok E"

lemma node_ext_okD:
  assumes "node_ext_ok E W"
  shows "ext_ok E" and "codec_ok E" and "evict_ok (evict_summary W)" and "evict_ok (evict_smt W)"
    and "evict_ok (evict_abbr W)" and "touch_ok (touch_summary W)" and "touch_ok (touch_smt W)"
    and "transactions (to_block E (from_block E b k f)) = transactions b" and "sql_bindable E 0"
  using assms by (simp_all add: node_ext_ok_def sql_range_ok_def caches_ok_def to_block_ok_def ext_ok_def)

lemma node_invD:
  assumes "node_inv E W n"
  shows "storage_inv E (nd_storage n)" and "tables_inv E (db (nd_storage n))"
    and "coherent (abbr_at E W (db (nd_storage n))) (abbr_block_cache n)"
    and "map_of (summary n) h = Some v \<Longrightarrow> h \<noteq> 0 \<Longrightarrow>
      summary_at E (network n) (db (nd_storage n)) h = Some v"
    and "coherent (tree_at E W (db (nd_storage n))) (coin_smts n)"
  using assms by (auto simp: node_inv_def storage_inv_def)

lemma node_start_inv: "storage_inv E s \<Longrightarrow> node_inv E W (node_start net s)"
  by (simp add: node_inv_def node_start_def)

text \<open>A request that changes caches only, and keeps them coherent.\<close>

definition quiet ::
    "('f, 's, 'u, 'k, 'x) ext_scheme \<Rightarrow> ('s, 't, 'y) wire_scheme \<Rightarrow> ('f, 'u, 't) node \<Rightarrow>
     ('f, 'u, 't) node \<Rightarrow> bool" where
  "quiet E W n n' \<longleftrightarrow>
     node_inv E W n' \<and> network n' = network n \<and> recent n' = recent n \<and>
     (\<exists>c. nd_storage n' = (nd_storage n)\<lparr>old_cache := c\<rparr>)"

lemma quiet_refl: "node_inv E W n \<Longrightarrow> quiet E W n n"
  by (auto simp: quiet_def intro: exI [of _ "old_cache (nd_storage n)"])

lemma quiet_trans: "quiet E W n n1 \<Longrightarrow> quiet E W n1 n2 \<Longrightarrow> quiet E W n n2"
  by (auto simp: quiet_def)

lemma reads_cache [simp]:
  "state_at E (s\<lparr>old_cache := c\<rparr>) h = state_at E s h"
  "get_consensus E h (s\<lparr>old_cache := c\<rparr>) = get_consensus E h s"
  by (simp_all add: state_at_def get_consensus_def cong: option.case_cong if_cong)

lemma quietD:
  assumes "quiet E W n n'"
  shows "node_inv E W n'" and "db (nd_storage n') = db (nd_storage n)"
    and "network n' = network n" and "genesis (nd_storage n') = genesis (nd_storage n)"
    and "forest (nd_storage n') = forest (nd_storage n)"
    and "state_at E (nd_storage n') h = state_at E (nd_storage n) h"
    and "get_consensus E h (nd_storage n') = get_consensus E h (nd_storage n)"
  using assms by (auto simp: quiet_def)

lemma quiet_caches:
  assumes "node_inv E W n"
  shows "coherent (abbr_at E W (db (nd_storage n))) a \<Longrightarrow> quiet E W n (n\<lparr>abbr_block_cache := a\<rparr>)"
    and "(\<And>h v. map_of sm h = Some v \<Longrightarrow> h \<noteq> 0 \<Longrightarrow>
      summary_at E (network n) (db (nd_storage n)) h = Some v) \<Longrightarrow> quiet E W n (n\<lparr>summary := sm\<rparr>)"
    and "coherent (tree_at E W (db (nd_storage n))) t \<Longrightarrow> quiet E W n (n\<lparr>coin_smts := t\<rparr>)"
  using assms by (auto simp: quiet_def node_inv_def intro: exI [of _ "old_cache (nd_storage n)"])

lemma quiet_on_storage:
  assumes "node_inv E W n" and "coherent (block_at E (db (nd_storage n))) c"
  shows "quiet E W n (n\<lparr>nd_storage := (nd_storage n)\<lparr>old_cache := c\<rparr>\<rparr>)"
  using assms by (auto simp: quiet_def node_inv_def storage_inv_cache)

section \<open>Reads of the storage\<close>

lemma get_consensus_eq:
  assumes "codec_ok E" and "tables_inv E (db s)"
  shows "get_consensus E h s = (if sql_bindable E h then Ok (proof_at E (db s) h) else Panic Overflow)"
proof (cases "map_of (consensus_proofs (db s)) h")
  case None
  then show ?thesis by (simp add: get_consensus_def query_def proof_at_def)
next
  case (Some blob)
  then have "(h, blob) \<in> set (consensus_proofs (db s))" by (rule map_of_SomeD)
  with assms(2) obtain p where "blob = enc_proof E p"
    by (auto simp: tables_inv_def list_all_iff)
  with Some assms(1) show ?thesis by (simp add: get_consensus_def query_def proof_at_def)
qed

lemma on_storage_get_block:
  assumes "node_ext_ok E W" and "node_inv E W n"
  obtains n' where "on_storage (get_block E h) n =
      (if sql_bindable E h then Ok (block_at E (db (nd_storage n)) h) else Panic Overflow, n')"
    and "quiet E W n n'"
proof -
  from get_block_spec [of E "nd_storage n" h] assms obtain c
    where "get_block E h (nd_storage n) =
      (if sql_bindable E h then Ok (block_at E (db (nd_storage n)) h) else Panic Overflow,
       (nd_storage n)\<lparr>old_cache := c\<rparr>)"
    and "coherent (block_at E (db (nd_storage n))) c"
    by (auto simp: node_ext_okD node_invD)
  with quiet_on_storage [OF assms(2)] that show thesis by (simp add: on_storage_def)
qed

lemma on_storage_get_state:
  assumes "node_ext_ok E W" and "node_inv E W n"
  obtains n' where "on_storage (get_state E h) n = (state_at E (nd_storage n) h, n')"
    and "quiet E W n n'"
proof -
  from get_state_spec [of E "nd_storage n" h] assms obtain c
    where "get_state E h (nd_storage n) =
      (state_at E (nd_storage n) h, (nd_storage n)\<lparr>old_cache := c\<rparr>)"
    and "coherent (block_at E (db (nd_storage n))) c"
    by (auto simp: node_ext_okD node_invD)
  with quiet_on_storage [OF assms(2)] that show thesis by (simp add: on_storage_def)
qed

lemma on_storage_highest_state:
  assumes "node_ext_ok E W" and "node_inv E W n"
  obtains n' where "on_storage (highest_state E) n = (tip_state E (nd_storage n), n')"
    and "quiet E W n n'"
proof -
  from highest_state_spec [of E "nd_storage n"] assms obtain c
    where "highest_state E (nd_storage n) =
      (tip_state E (nd_storage n), (nd_storage n)\<lparr>old_cache := c\<rparr>)"
    and "coherent (block_at E (db (nd_storage n))) c"
    by (auto simp: node_ext_okD node_invD)
  with quiet_on_storage [OF assms(2)] that show thesis by (simp add: on_storage_def)
qed

lemma state_at_Some:
  assumes "state_at E s h = Ok (Some st)"
  obtains b k where "block_at E (db s) h = Some b" and "st = from_block E b k (forest s)"
    and "get_stakeset E h s = Ok k" and "root_hash E k = hd_stakes_hash (b_header b)"
    and "sql_bindable E h"
  using assms that
  by (auto simp: state_at_def bind_res_Ok_iff split: if_splits option.splits)

section \<open>The requests\<close>

lemma bind_some_simps [simp]:
  "bind_some (Ok None, n) f = (Ok None, n)"
  "bind_some (Ok (Some v), n) f = f v n"
  "bind_some (Err e, n) f = (Err e, n)"
  "bind_some (Panic p, n) f = (Panic p, n)"
  by (simp_all add: bind_some_def)

lemma abbr_at_ex:
  assumes "codec_ok E" and "tables_inv E d"
  shows "abbr_at E W d h = Some x \<longleftrightarrow>
    (\<exists>b p. block_at E d h = Some b \<and> proof_at E d h = Some p \<and> x = (abbreviate W b, p))"
  by (auto simp: abbr_at_def split: option.splits)

lemma block_proof_ex:
  assumes "codec_ok E" and "tables_inv E d" and "block_at E d h = Some b"
  obtains p where "proof_at E d h = Some p"
  using assms block_at_ex [of E d h] proof_at_ex [of E d h] by auto

lemma get_abbr_block_spec:
  assumes "node_ext_ok E W" and "node_inv E W n"
  obtains n' where "get_abbr_block E W h n =
      (if sql_bindable E h then Ok (abbr_at E W (db (nd_storage n)) h) else Panic Overflow, n')"
    and "quiet E W n n'"
proof -
  let ?d = "db (nd_storage n)"
  note [simp] = node_ext_okD [OF assms(1)]
  have inv: "tables_inv E ?d" using assms(2) by (rule node_invD)
  show thesis
  proof (cases "map_of (abbr_block_cache n) h")
    case (Some c)
    then have c: "abbr_at E W ?d h = Some c" using node_invD(3) [OF assms(2)] by (rule coherent_lookup [rotated])
    then obtain b where "block_at E ?d h = Some b" by (auto simp: abbr_at_def split: option.splits)
    then have "sql_bindable E h" by (rule block_at_bindable [OF node_ext_okD(2) [OF assms(1)] inv])
    with Some c that [of n] quiet_refl [OF assms(2)] show thesis by (simp add: get_abbr_block_def)
  next
    case miss: None
    obtain n1 where n1: "on_storage (get_block E h) n =
        (if sql_bindable E h then Ok (block_at E ?d h) else Panic Overflow, n1)"
      and q1: "quiet E W n n1" by (rule on_storage_get_block [OF assms])
    show thesis
    proof (cases "sql_bindable E h \<and> block_at E ?d h \<noteq> None")
      case False
      with miss n1 q1 that [of n1] show thesis
        by (cases "sql_bindable E h") (auto simp: get_abbr_block_def abbr_at_def)
    next
      case True
      then obtain b where b: "block_at E ?d h = Some b" by blast
      obtain p where p: "proof_at E ?d h = Some p" by (rule block_proof_ex [OF _ inv b]) simp
      let ?n = "n1\<lparr>abbr_block_cache :=
        cache_put (evict_abbr W) h (abbreviate W b, p) (abbr_block_cache n1)\<rparr>"
      have at: "abbr_at E W ?d h = Some (abbreviate W b, p)" using b p by (simp add: abbr_at_def)
      have inv1: "node_inv E W n1" using q1 by (rule quietD)
      have "coherent (abbr_at E W (db (nd_storage n1))) (abbr_block_cache ?n)"
        using coherent_put [OF node_ext_okD(5) [OF assms(1)] node_invD(3) [OF inv1], of h] at
        by (simp add: quietD(2) [OF q1])
      then have "quiet E W n1 ?n" using quiet_caches(1) [OF inv1] by simp
      then have "quiet E W n ?n" by (rule quiet_trans [OF q1])
      moreover have "get_abbr_block E W h n = (Ok (Some (abbreviate W b, p)), ?n)"
        using miss n1 True b p get_consensus_eq [OF _ inv, of h]
        by (simp add: get_abbr_block_def Let_def quietD(7) [OF q1])
      ultimately show thesis using that True at by simp
    qed
  qed
qed

text \<open>The tip's header is that of the last block, or a header of height 0.\<close>

lemma tip_header:
  assumes "ext_ok E" and "storage_inv E s" and "tip_state E s = Ok st"
  shows "hd_height (state_header E st) = highest_height s"
    and "highest_height s \<noteq> 0 \<Longrightarrow>
      \<exists>b. block_at E (db s) (highest_height s) = Some b \<and> state_header E st = b_header b"
proof -
  have inv: "tables_inv E (db s)" using assms(2) by (simp add: storage_inv_def)
  have "unat (hd_height (state_header E st)) = length (history (db s))"
    using assms(3) by (rule_tac tip_state_cases [OF assms(1,2)]) auto
  then show "hd_height (state_header E st) = highest_height s"
    using highest_height_eq [OF inv] by (simp add: word_unat_eq_iff)
  assume "highest_height s \<noteq> 0"
  then have "history (db s) \<noteq> []" using highest_height_eq [OF inv] by (auto simp: word_unat_eq_iff)
  with assms(3) have "state_at E s (highest_height s) = Ok (Some st)"
    by (auto simp: tip_state_def bind_res_Ok_iff split: option.splits)
  then show "\<exists>b. block_at E (db s) (highest_height s) = Some b \<and> state_header E st = b_header b"
    by (rule state_at_Some) (auto simp: ext_okD [OF assms(1)])
qed

lemma get_summary_spec:
  assumes "node_ext_ok E W" and "node_inv E W n" and "tip_state E (nd_storage n) = Ok st"
  obtains n' v where "get_summary E W n = (Ok v, n')" and "quiet E W n n'"
    and "highest_height (nd_storage n) \<noteq> 0 \<Longrightarrow>
      summary_at E (network n) (db (nd_storage n)) (highest_height (nd_storage n)) = Some v"
proof -
  let ?s = "nd_storage n" let ?h = "highest_height ?s" let ?hd = "state_header E st"
  note ext = node_ext_okD [OF assms(1)]
  have sinv: "storage_inv E ?s" and inv: "tables_inv E (db ?s)" using assms(2) by (rule node_invD)+
  note tip = tip_header [OF ext(1) sinv assms(3)]
  obtain n1 where n1: "on_storage (highest_state E) n = (Ok st, n1)" and q1: "quiet E W n n1"
    using on_storage_highest_state [OF assms(1,2)] assms(3) by metis
  have inv1: "node_inv E W n1" using q1 by (rule quietD)
  let ?sm = "touch_summary W ?h (summary n1)"
  have sm: "map_of ?sm = map_of (summary n1)" using ext(6) by (simp add: touch_ok_def)
  have q2: "quiet E W n (n1\<lparr>summary := ?sm\<rparr>)"
    using quiet_caches(2) [OF inv1, of ?sm] node_invD(4) [OF inv1] quiet_trans [OF q1]
    by (simp add: sm)
  show thesis
  proof (cases "map_of (summary n1) ?h")
    case (Some v)
    then have "?h \<noteq> 0 \<Longrightarrow> summary_at E (network n) (db ?s) ?h = Some v"
      using node_invD(4) [OF inv1] quietD [OF q1] by simp
    moreover have "get_summary E W n = (Ok v, n1\<lparr>summary := ?sm\<rparr>)"
      using n1 Some tip(1) by (simp add: get_summary_def Let_def)
    ultimately show thesis using that q2 by blast
  next
    case miss: None
    have bind: "sql_bindable E ?h"
      using tip(2) block_at_bindable [OF ext(2) inv] ext(9) by (cases "?h = 0") auto
    define v where "v = \<lparr>ss_netid = network n, ss_height = ?h, ss_header = ?hd,
      ss_proof = (case proof_at E (db ?s) ?h of Some proof \<Rightarrow> proof | None \<Rightarrow> [])\<rparr>"
    let ?n = "n1\<lparr>summary := cache_put (evict_summary W) ?h v ?sm\<rparr>"
    have v: "summary_at E (network n) (db ?s) ?h = Some v" if h: "?h \<noteq> 0"
    proof -
      from tip(2) [OF h] obtain b where b: "block_at E (db ?s) ?h = Some b" "?hd = b_header b" by blast
      moreover obtain p where "proof_at E (db ?s) ?h = Some p"
        by (rule block_proof_ex [OF ext(2) inv b(1)])
      ultimately show ?thesis by (simp add: summary_at_def v_def)
    qed
    have "summary_at E (network n) (db ?s) j = Some w"
      if "map_of (cache_put (evict_summary W) ?h v ?sm) j = Some w" "j \<noteq> 0" for j w
    proof -
      from that(1) have "map_of (AList.update ?h v ?sm) j = Some w"
        using ext(3) unfolding evict_ok_def cache_put_def by blast
      with v that(2) node_invD(4) [OF inv1, of j w] quietD [OF q1] show ?thesis
        by (auto simp: update_conv sm split: if_splits)
    qed
    with quiet_caches(2) [OF inv1] have "quiet E W n1 ?n" by (simp add: quietD [OF q1])
    then have "quiet E W n ?n" by (rule quiet_trans [OF q1])
    moreover have "get_summary E W n = (Ok v, ?n)"
      using n1 miss tip(1) bind get_consensus_eq [OF ext(2) inv, of ?h]
      by (simp add: get_summary_def Let_def quietD [OF q1] v_def)
    ultimately show thesis using that v by blast
  qed
qed

lemma get_summary_panic:
  assumes "node_ext_ok E W" and "node_inv E W n" and "tip_state E (nd_storage n) = Panic q"
  obtains n' where "get_summary E W n = (Panic q, n')" and "quiet E W n n'"
proof -
  obtain n1 where "on_storage (highest_state E) n = (Panic q, n1)" and "quiet E W n n1"
    using assms(3) by (rule_tac on_storage_highest_state [OF assms(1,2)]) simp
  with that show thesis by (simp add: get_summary_def)
qed

text \<open>The tree of a block's transactions, when the state at the height can be rebuilt.\<close>

lemma get_coin_tree_spec:
  assumes "node_ext_ok E W" and "node_inv E W n"
    and "state_at E (nd_storage n) h = Ok (Some st)" and "block_at E (db (nd_storage n)) h = Some b"
  obtains n' where "get_coin_tree E W h n = (Ok (tree_of E W (transactions b)), n')"
    and "quiet E W n n'"
proof -
  note ext = node_ext_okD [OF assms(1)]
  let ?sm = "touch_smt W h (coin_smts n)"
  have q1: "quiet E W n (n\<lparr>coin_smts := ?sm\<rparr>)" (is "quiet E W n ?n1")
    using quiet_caches(3) [OF assms(2)] coherent_touch [OF ext(7)] node_invD(5) [OF assms(2)] by blast
  show thesis
  proof (cases "map_of (coin_smts n) h")
    case (Some v)
    with node_invD(5) [OF assms(2)] have "tree_at E W (db (nd_storage n)) h = Some v"
      by (rule coherent_lookup)
    with Some assms(4) q1 that [of ?n1] show thesis by (simp add: get_coin_tree_def tree_at_def)
  next
    case miss: None
    have inv1: "node_inv E W ?n1" using q1 by (rule quietD)
    obtain n2 where n2: "on_storage (get_state E h) ?n1 = (Ok (Some st), n2)"
      and q2: "quiet E W ?n1 n2"
      using on_storage_get_state [OF assms(1) inv1, of h] assms(3) by auto
    have inv2: "node_inv E W n2" using q2 by (rule quietD)
    from assms(3) have trees: "transactions (to_block E st) = transactions b"
      by (rule state_at_Some) (use assms(4) ext(8) in auto)
    let ?n = "n2\<lparr>coin_smts := cache_put (evict_smt W) h (tree_of E W (transactions b)) (coin_smts n2)\<rparr>"
    have "tree_at E W (db (nd_storage n2)) h = Some (tree_of E W (transactions b))"
      using assms(4) by (simp add: tree_at_def quietD(2) [OF q2])
    then have "quiet E W n2 ?n"
      by (rule quiet_caches(3) [OF inv2 coherent_put [OF ext(4) node_invD(5) [OF inv2]]])
    then have "quiet E W n ?n" using q1 q2 quiet_trans by blast
    moreover have "get_coin_tree E W h n = (Ok (tree_of E W (transactions b)), ?n)"
      using miss n2 trees by (simp add: get_coin_tree_def Let_def tree_of_def)
    ultimately show thesis using that by blast
  qed
qed

text \<open>What \<^verbatim>\<open>get_smt_branch\<close> answers for a state that can be rebuilt.\<close>

definition branch_of ::
    "('f, 's, 'u, 'k, 'x) ext_scheme \<Rightarrow> ('s, 't, 'y) wire_scheme \<Rightarrow> 's \<Rightarrow> block \<Rightarrow> substate \<Rightarrow>
     hashval \<Rightarrow> (bytes \<times> hashval list) option" where
  "branch_of E W st b elem key =
     (case elem of
        Coins \<Rightarrow> Some (coins_get W st key)
      | History \<Rightarrow> Some (history_get W st key)
      | Pools \<Rightarrow> Some (pools_get W st key)
      | Stakes \<Rightarrow> None
      | Transactions \<Rightarrow> Some (tree_get W (tree_of E W (transactions b)) key))"

lemma get_smt_branch_spec:
  assumes "node_ext_ok E W" and "node_inv E W n"
  obtains n' where "get_smt_branch E W h elem key n =
      (bind_res (state_at E (nd_storage n) h) (\<lambda>ost.
         case (ost, block_at E (db (nd_storage n)) h) of
           (Some st, Some b) \<Rightarrow>
             (case branch_of E W st b elem key of
                Some (v, proof) \<Rightarrow> Ok (Some (v, compress W proof))
              | None \<Rightarrow> Panic TodoReached)
         | _ \<Rightarrow> Ok None), n')"
    and "quiet E W n n'"
proof -
  let ?s = "nd_storage n"
  obtain n1 where n1: "on_storage (get_state E h) n = (state_at E ?s h, n1)"
    and q1: "quiet E W n n1" by (rule on_storage_get_state [OF assms])
  show thesis
  proof (cases "\<exists>st. state_at E ?s h = Ok (Some st)")
    case False
    then show thesis
      using that [OF _ q1] n1
      by (cases "state_at E ?s h") (auto simp: get_smt_branch_def split: option.splits)
  next
    case True
    then obtain st where st: "state_at E ?s h = Ok (Some st)" by blast
    then obtain b where b: "block_at E (db ?s) h = Some b" by (rule state_at_Some)
    have inv1: "node_inv E W n1" using q1 by (rule quietD)
    obtain n2 where n2: "get_coin_tree E W h n1 = (Ok (tree_of E W (transactions b)), n2)"
      and q2: "quiet E W n1 n2"
      by (rule get_coin_tree_spec [OF assms(1) inv1, of h st b])
        (use st b in \<open>simp_all add: quietD [OF q1]\<close>)
    have "quiet E W n n2" using q1 q2 by (rule quiet_trans)
    moreover from n1 n2 st b have "get_smt_branch E W h elem key n =
      (case branch_of E W st b elem key of
         Some (v, proof) \<Rightarrow> Ok (Some (v, compress W proof)) | None \<Rightarrow> Panic TodoReached, n2)"
      by (simp add: get_smt_branch_def branch_of_def split: substate.splits prod.splits)
    ultimately show thesis using that st b by simp
  qed
qed

lemma get_stakers_raw_spec:
  assumes "node_ext_ok E W" and "node_inv E W n"
  obtains n' where "get_stakers_raw E W h n =
      (bind_res (state_at E (nd_storage n) h) (\<lambda>ost. Ok (map_option (\<lambda>st.
         map_of (rev (map (\<lambda>(k, v). (hash_hash W k, enc_doc E v)) (stakes_iter E (raw_stakes E st))))) ost)), n')"
    and "quiet E W n n'"
proof -
  obtain n1 where n1: "on_storage (get_state E h) n = (state_at E (nd_storage n) h, n1)"
    and q1: "quiet E W n n1" by (rule on_storage_get_state [OF assms])
  then show thesis
    by (intro that [OF _ q1]) (cases "state_at E (nd_storage n) h",
        auto simp: get_stakers_raw_def bind_some_def split: option.splits)
qed

lemma get_coin_changes_spec:
  assumes "node_ext_ok E W" and "node_inv E W n"
  obtains n' where "get_coin_changes E oix h covhash n =
      (if \<not> sql_bindable E h then Panic Overflow
       else if block_at E (db (nd_storage n)) h = None then Ok None
       else case oix of None \<Rightarrow> Ok None
         | Some ix \<Rightarrow> bind_res (deletions (spent_between ix covhash h h)) (\<lambda>deleted.
             Ok (Some (map (\<lambda>c. Add (coin_id_of c)) (created_between ix covhash h h) @ deleted))), n')"
    and "quiet E W n n'"
proof -
  obtain n1 where "on_storage (get_block E h) n =
      (if sql_bindable E h then Ok (block_at E (db (nd_storage n)) h) else Panic Overflow, n1)"
    and q1: "quiet E W n n1" by (rule on_storage_get_block [OF assms])
  then show thesis
    by (intro that [OF _ q1]) (cases oix; auto simp: get_coin_changes_def Let_def)
qed

end
