(* ===== verification/Batch.thy ===== *)
theory Batch
  imports Node_Inv
begin

text \<open>
  The loop of \<^verbatim>\<open>get_lz4_blocks\<close>: it ends on every storage that satisfies the invariant, and
  what it collects is a run of consecutive blocks.
\<close>

section \<open>Runs of blocks\<close>

text \<open>The \<open>k\<close> blocks from height \<open>h\<close> on, with their proofs, and the size of their encodings.\<close>

primrec run :: "('f, 's, 'u, 'k, 'x) ext_scheme \<Rightarrow> tables \<Rightarrow> u64 \<Rightarrow> nat \<Rightarrow> (block \<times> cproof) list" where
  "run E d h 0 = []"
| "run E d h (Suc k) = (the (block_at E d h), the (proof_at E d h)) # run E d (h + 1) k"

definition run_size :: "('f, 's, 'u, 'k, 'x) ext_scheme \<Rightarrow> (block \<times> cproof) list \<Rightarrow> nat" where
  "run_size E xs = sum_list (map (\<lambda>(b, p). length (enc_block E b) + length (enc_proof E p)) xs)"

lemma run_size_simps [simp]:
  "run_size E [] = 0"
  "run_size E ((b, p) # xs) = length (enc_block E b) + length (enc_proof E p) + run_size E xs"
  by (simp_all add: run_size_def)

lemma length_run [simp]: "length (run E d h k) = k"
  by (induction k arbitrary: h) simp_all

lemma run_size_mono: "j \<le> k \<Longrightarrow> run_size E (run E d h j) \<le> run_size E (run E d h k)"
proof (induction k arbitrary: h j)
  case (Suc k)
  then show ?case by (cases j) simp_all
qed simp

lemma run_nth:
  "i < k \<Longrightarrow> run E d h k ! i =
    (the (block_at E d (h + of_nat i)), the (proof_at E d (h + of_nat i)))"
proof (induction k arbitrary: h i)
  case (Suc k)
  then show ?case by (cases i) (simp_all add: algebra_simps)
qed simp

section \<open>The loop\<close>

lemma run_step:
  assumes "node_ext_ok E W" and "node_inv E W n"
    and "1 \<le> unat h" and "unat h \<le> unat (highest_height (nd_storage n))"
  obtains b p n' where "block_at E (db (nd_storage n)) h = Some b"
    and "proof_at E (db (nd_storage n)) h = Some p" and "quiet E W n n'"
    and "fst acc \<le> limit \<Longrightarrow>
      lz4_loop E limit h acc n = lz4_loop E limit (h + 1) (lz4_push E limit b p acc) n'"
    and "unat (h + 1) = Suc (unat h)"
proof -
  note ext = node_ext_okD [OF assms(1)]
  let ?d = "db (nd_storage n)"
  have inv: "tables_inv E ?d" using assms(2) by (rule node_invD)
  obtain b where b: "block_at E ?d h = Some b"
    using assms(3,4) block_at_ex [OF ext(2) inv, of h] highest_height_eq [OF inv] by auto
  obtain p where p: "proof_at E ?d h = Some p" by (rule block_proof_ex [OF ext(2) inv b])
  have bind: "sql_bindable E h" by (rule block_at_bindable [OF ext(2) inv b])
  then have "unat h < 2 ^ 63" using assms(1) by (simp add: node_ext_ok_def sql_range_ok_def)
  then have suc: "unat (h + 1) = Suc (unat h)" by (intro unat_u64_Suc) simp
  obtain n' where n': "on_storage (get_block E h) n = (Ok (Some b), n')" and q: "quiet E W n n'"
    using on_storage_get_block [OF assms(1,2), of h] b bind by auto
  have "get_consensus E h (nd_storage n') = Ok (Some p)"
    using get_consensus_eq [OF ext(2) inv, of h] p bind by (simp add: quietD [OF q])
  moreover have "checked_add h 1 = Ok (h + 1)" using suc by (simp add: checked_add_Ok_iff)
  ultimately have "lz4_loop E limit h acc n = lz4_loop E limit (h + 1) (lz4_push E limit b p acc) n'"
    if "fst acc \<le> limit"
    using that n' by (subst lz4_loop.simps) (simp add: node_get_block_def)
  with b p q suc show thesis by (intro that)
qed

text \<open>
  The loop collects \<open>j\<close> blocks.  It ends at the tip, or one block after the limit is
  exceeded; that block is dropped if it is not the only one, its proof is not.
\<close>

lemma lz4_loop_run:
  assumes "node_ext_ok E W" and "node_inv E W n"
    and "1 \<le> unat h" and "unat h + m = Suc (unat (highest_height (nd_storage n)))"
    and "unat (highest_height (nd_storage n)) < 2 ^ 63 - 1" and "t \<le> limit"
  shows "\<exists>c j n'. quiet E W n n' \<and>
    lz4_loop E limit h (t, as, ps) n = Some (Ok (if as = [] \<and> j = 0 then None else
      Some (as @ map fst (run E (db (nd_storage n)) h c),
            ps @ map snd (run E (db (nd_storage n)) h j))), n') \<and>
    j \<le> m \<and>
    ((c = j \<and> j = m \<and> t + run_size E (run E (db (nd_storage n)) h c) \<le> limit) \<or>
     (limit < t + run_size E (run E (db (nd_storage n)) h j) \<and>
      (if as = [] \<and> j = 1 then c = j
       else j = Suc c \<and> t + run_size E (run E (db (nd_storage n)) h c) \<le> limit)))"
  using assms(2-6)
proof (induction m arbitrary: h t as ps n)
  case 0
  note ext = node_ext_okD [OF assms(1)]
  have inv: "tables_inv E (db (nd_storage n))" using 0(1) by (rule node_invD)
  have "sql_bindable E h" using 0(3,4) assms(1) by (simp add: node_ext_ok_def sql_range_ok_def)
  moreover have "block_at E (db (nd_storage n)) h = None"
    using block_at_ex [OF ext(2) inv, of h] highest_height_eq [OF inv] 0(3) by (cases "block_at E (db (nd_storage n)) h") auto
  ultimately obtain n' where n': "on_storage (get_block E h) n = (Ok None, n')" and "quiet E W n n'"
    using on_storage_get_block [OF assms(1) 0(1), of h] by auto
  moreover have "lz4_loop E limit h (t, as, ps) n = Some (Ok (if as = [] then None else Some (as, ps)), n')"
    using n' 0(5) by (subst lz4_loop.simps) (simp add: node_get_block_def)
  ultimately show ?case using 0(5) by (intro exI [of _ 0] exI [of _ n']) simp
next
  case (Suc m)
  let ?d = "db (nd_storage n)"
  obtain b p n1 where bp: "block_at E ?d h = Some b" "proof_at E ?d h = Some p"
    and q1: "quiet E W n n1"
    and step: "lz4_loop E limit h (t, as, ps) n =
      lz4_loop E limit (h + 1) (lz4_push E limit b p (t, as, ps)) n1"
    and suc: "unat (h + 1) = Suc (unat h)"
    using Suc.prems run_step [OF assms(1) Suc.prems(1), of h "(t, as, ps)" limit] by auto
  define t1 where "t1 = t + length (enc_block E b) + length (enc_proof E p)"
  have run1: "run E ?d h (Suc k) = (b, p) # run E ?d (h + 1) k" for k using bp by simp
  have same: "nd_storage n1 = (nd_storage n)\<lparr>old_cache := old_cache (nd_storage n1)\<rparr>"
    using q1 by (auto simp: quiet_def)
  have d1: "db (nd_storage n1) = ?d" and hh: "highest_height (nd_storage n1) = highest_height (nd_storage n)"
    by (subst same, simp)+
  show ?case
  proof (cases "limit < t1")
    case True
    have "lz4_push E limit b p (t, as, ps) = (t1, if as = [] then [b] else as, ps @ [p])"
      using True by (simp add: lz4_push_def t1_def)
    then have "lz4_loop E limit h (t, as, ps) n =
        Some (Ok (Some (if as = [] then [b] else as, ps @ [p])), n1)"
      using True step by (simp add: lz4_loop.simps)
    with True q1 Suc.prems(5) show ?thesis
      by (intro exI [of _ "if as = [] then 1 else 0"] exI [of _ 1] exI [of _ n1])
        (auto simp: bp t1_def)
  next
    case False
    have push: "lz4_push E limit b p (t, as, ps) = (t1, as @ [b], ps @ [p])"
      using False by (simp add: lz4_push_def t1_def)
    have "\<exists>c j n'. quiet E W n1 n' \<and>
      lz4_loop E limit (h + 1) (t1, as @ [b], ps @ [p]) n1 = Some (Ok (if as @ [b] = [] \<and> j = 0 then None else
        Some ((as @ [b]) @ map fst (run E ?d (h + 1) c), (ps @ [p]) @ map snd (run E ?d (h + 1) j))), n') \<and>
      j \<le> m \<and>
      ((c = j \<and> j = m \<and> t1 + run_size E (run E ?d (h + 1) c) \<le> limit) \<or>
       (limit < t1 + run_size E (run E ?d (h + 1) j) \<and>
        (if as @ [b] = [] \<and> j = 1 then c = j
         else j = Suc c \<and> t1 + run_size E (run E ?d (h + 1) c) \<le> limit)))"
      using Suc.IH [of n1 "h + 1" t1 "as @ [b]" "ps @ [p]", unfolded d1 hh] quietD(1) [OF q1]
        suc Suc.prems(2-4) False by simp
    then obtain c j n' where q2: "quiet E W n1 n'"
      and res: "lz4_loop E limit (h + 1) (t1, as @ [b], ps @ [p]) n1 =
        Some (Ok (Some (as @ b # map fst (run E ?d (h + 1) c), ps @ p # map snd (run E ?d (h + 1) j))), n')"
      and le: "j \<le> m"
      and sizes: "(c = j \<and> j = m \<and> t1 + run_size E (run E ?d (h + 1) c) \<le> limit) \<or>
        (limit < t1 + run_size E (run E ?d (h + 1) j) \<and> j = Suc c \<and>
         t1 + run_size E (run E ?d (h + 1) c) \<le> limit)"
      by auto
    have "lz4_loop E limit h (t, as, ps) n = Some (Ok (Some (as @ map fst (run E ?d h (Suc c)),
        ps @ map snd (run E ?d h (Suc j)))), n')"
      using step push res by (simp only: run1 list.map fst_conv snd_conv)
    moreover have "t1 + run_size E (run E ?d (h + 1) k) = t + run_size E (run E ?d h (Suc k))" for k
      by (simp add: run1 t1_def del: run.simps)
    ultimately show ?thesis
      using quiet_trans [OF q1 q2] le sizes
      by (intro exI [of _ "Suc c"] exI [of _ "Suc j"] exI [of _ n']) (auto simp del: run.simps)
  qed
qed

text \<open>The batch that is sent.\<close>

lemma lz4_batch:
  assumes "node_ext_ok E W" and "node_inv E W n" and "1 \<le> unat h"
    and "unat h \<le> unat (highest_height (nd_storage n))"
    and "unat (highest_height (nd_storage n)) < 2 ^ 63 - 1"
  obtains c j n' where "quiet E W n n'" and "1 \<le> c" and "c \<le> j" and "j \<le> Suc c"
    and "unat h + j \<le> Suc (unat (highest_height (nd_storage n)))"
    and "lz4_loop E limit h (0, [], []) n =
      Some (Ok (Some (map fst (run E (db (nd_storage n)) h c),
        map snd (run E (db (nd_storage n)) h j))), n')"
    and "c = 1 \<or> run_size E (run E (db (nd_storage n)) h c) \<le> limit"
    and "unat h + c = Suc (unat (highest_height (nd_storage n))) \<or>
      limit < run_size E (run E (db (nd_storage n)) h (Suc c))"
proof -
  let ?d = "db (nd_storage n)" let ?tip = "unat (highest_height (nd_storage n))"
  obtain m where m: "unat h + m = Suc ?tip" "0 < m"
    using assms(4) by (metis add_Suc_right le_iff_add zero_less_Suc)
  have "0 \<le> limit" by simp
  from lz4_loop_run [OF assms(1-3) m(1) assms(5) this, of "[]" "[]",
      simplified append_Nil add_0 simp_thms]
  obtain c j n' where *: "quiet E W n n'" "j \<le> m"
      "lz4_loop E limit h (0, [], []) n = Some (Ok (if j = 0 then None else
        Some (map fst (run E ?d h c), map snd (run E ?d h j))), n')"
    and sizes: "(c = j \<and> j = m \<and> run_size E (run E ?d h c) \<le> limit) \<or>
      (limit < run_size E (run E ?d h j) \<and>
       (if j = 1 then c = j else j = Suc c \<and> run_size E (run E ?d h c) \<le> limit))"
    by blast
  have j: "j \<noteq> 0" using sizes m(2) by (cases j) auto
  show thesis
  proof (rule that [OF *(1), of c j])
    show "1 \<le> c" "c \<le> j" "j \<le> Suc c" using sizes j by (auto split: if_splits)
    show "unat h + j \<le> Suc ?tip" using *(2) m by simp
    show "lz4_loop E limit h (0, [], []) n =
        Some (Ok (Some (map fst (run E ?d h c), map snd (run E ?d h j))), n')"
      using *(3) j by simp
    show "c = 1 \<or> run_size E (run E ?d h c) \<le> limit" using sizes by (auto split: if_splits)
    show "unat h + c = Suc ?tip \<or> limit < run_size E (run E ?d h (Suc c))"
      using sizes m run_size_mono [of j "Suc c" E ?d h] by (auto split: if_splits simp del: run.simps)
  qed
qed

end
