(* ===== verification/Node_Props.thy ===== *)
theory Node_Props
  imports Batch
begin

text \<open>
  Lives of a node (\<open>node_reach\<close>) and the properties of the RPC server, \<^verbatim>\<open>src/node.rs\<close>.
\<close>

section \<open>Lives of a node\<close>

text \<open>Any request, at any time, or a block from the synchronisation or the staker.\<close>

inductive node_step ::
    "('f, 's, 'u, 'k, 'x) ext_scheme \<Rightarrow> ('s, 't, 'y) wire_scheme \<Rightarrow> ('f, 'u, 't) node \<Rightarrow>
     ('f, 'u, 't) node \<Rightarrow> bool" for E W where
  new_block: "apply_block E b p (nd_storage n) = (r, s) \<Longrightarrow> node_step E W n (n\<lparr>nd_storage := s\<rparr>)"
| tx_request: "send_tx E W now routes t n = (a, n') \<Longrightarrow> node_step E W n n'"
| abbr_request: "get_abbr_block E W h n = (ra, n') \<Longrightarrow> node_step E W n n'"
| summary_request: "get_summary E W n = (rs, n') \<Longrightarrow> node_step E W n n'"
| block_request: "node_get_block E h n = (rb, n') \<Longrightarrow> node_step E W n n'"
| lz4_request: "get_lz4_blocks E W h limit n = Some (rl, n') \<Longrightarrow> node_step E W n n'"
| branch_request: "get_smt_branch E W h elem key n = (rp, n') \<Longrightarrow> node_step E W n n'"
| stakers_request: "get_stakers_raw E W h n = (rk, n') \<Longrightarrow> node_step E W n n'"
| changes_request: "get_coin_changes E oix h covhash n = (rc, n') \<Longrightarrow> node_step E W n n'"

inductive node_reach ::
    "('f, 's, 'u, 'k, 'x) ext_scheme \<Rightarrow> ('s, 't, 'y) wire_scheme \<Rightarrow> ('f, 'u, 't) node \<Rightarrow> bool"
  for E W where
  start: "storage_reach E s \<Longrightarrow> node_reach E W (node_start net s)"
| step: "node_reach E W n \<Longrightarrow> node_step E W n n' \<Longrightarrow> node_reach E W n'"

section \<open>The invariant is kept\<close>

lemma apply_block_keeps:
  assumes "ext_ok E" and "storage_inv E s" and "apply_block E b p s = (r, s')"
  shows "block_at E (db s) h = Some c \<Longrightarrow> block_at E (db s') h = Some c"
    and "proof_at E (db s) h = Some q \<Longrightarrow> proof_at E (db s') h = Some q"
proof -
  show "block_at E (db s) h = Some c \<Longrightarrow> block_at E (db s') h = Some c"
    using st.put_mono [of E s b p r s'] assms by blast
  have inv: "tables_inv E (db s)" using assms(2) by (simp add: storage_inv_def)
  assume q: "proof_at E (db s) h = Some q"
  then have le: "unat h \<le> length (history (db s))"
    using proof_at_ex [OF ext_okD(1) [OF assms(1)] inv, of h] by auto
  show "proof_at E (db s') h = Some q"
    using assms(3,1,2)
  proof (cases rule: apply_block_cases)
    case (stored hs st f)
    with le q store_block_lookup(2) [OF ext_okD(1) [OF assms(1)] inv stored(4,5)]
    show ?thesis by auto
  qed (use q in simp)
qed

lemma new_block_keeps:
  assumes "node_ext_ok E W" and "node_inv E W n" and "apply_block E b p (nd_storage n) = (r, s)"
  shows "node_inv E W (n\<lparr>nd_storage := s\<rparr>)"
proof -
  have ext: "ext_ok E" and sinv: "storage_inv E (nd_storage n)"
    using assms(1,2) by (simp_all add: node_ext_okD node_invD)
  note blk = apply_block_keeps(1) [OF ext sinv assms(3)]
  note prv = apply_block_keeps(2) [OF ext sinv assms(3)]
  have "storage_inv E s" using st.put_inv [of E "nd_storage n" b p r s] ext sinv assms(3) by blast
  moreover have "coherent (abbr_at E W (db s)) (abbr_block_cache n)"
    using node_invD(3) [OF assms(2)]
    by (rule coherent_mono) (use blk prv in \<open>auto simp: abbr_at_def split: option.splits\<close>)
  moreover have "coherent (tree_at E W (db s)) (coin_smts n)"
    using node_invD(5) [OF assms(2)]
    by (rule coherent_mono) (use blk in \<open>auto simp: tree_at_def\<close>)
  moreover have "summary_at E (network n) (db s) h = Some v"
    if "map_of (summary n) h = Some v" "h \<noteq> 0" for h v
    using node_invD(4) [OF assms(2) that] blk prv by (auto simp: summary_at_def split: option.splits)
  ultimately show ?thesis by (auto simp: node_inv_def)
qed

lemma send_tx_keeps:
  assumes "node_inv E W n" and "send_tx E W now routes t n = (a, n')"
  shows "node_inv E W n'"
proof -
  obtain r m where "n' = n \<or> n' = n\<lparr>recent := r, nd_storage := (nd_storage n)\<lparr>st_mempool := m\<rparr>\<rparr>"
    using assms(2)
    by (auto simp: send_tx_def Let_def split: if_splits prod.splits res.splits)
  with assms(1) show ?thesis by (elim disjE) (simp_all add: node_inv_def storage_inv_def)
qed

text \<open>A loop that has ended has only read.\<close>

lemma lz4_loop_quiet:
  assumes "node_ext_ok E W" and "lz4_loop E limit h acc n = Some (r, n')" and "node_inv E W n"
  shows "quiet E W n n'"
proof -
  have "E = E \<longrightarrow> node_inv E W n \<longrightarrow> quiet E W n (snd (r, n'))"
  proof (rule lz4_loop.raw_induct [where P =
      "\<lambda>E' limit h acc n y. E' = E \<longrightarrow> node_inv E W n \<longrightarrow> quiet E W n (snd y)", OF _ assms(2)],
      intro impI, goal_cases)
    case (1 loop E' limit h acc n y)
    from 1(4) have inv: "node_inv E W n" .
    obtain r1 n1 where n1: "node_get_block E h n = (r1, n1)" by fastforce
    have q1: "quiet E W n n1"
      by (rule on_storage_get_block [OF assms(1) inv, of h])
        (use n1 in \<open>simp add: node_get_block_def\<close>)
    have IH: "quiet E W n (snd y)" if "loop E limit h' acc' n1 = Some y" for h' acc'
      using 1(1) [OF that] quiet_trans [OF q1] quietD(1) [OF q1] by blast
    from 1(2,3) n1 q1 quiet_refl [OF inv] show ?case
      by (auto split: if_splits res.splits option.splits dest: IH)
  qed
  with assms(3) show ?thesis by simp
qed

lemma quiet_inv: "quiet E W n n' \<Longrightarrow> node_inv E W n'"
  by (rule quietD)

lemma summary_keeps:
  assumes summary_request: "get_summary E W n = (rs, n')" "node_ext_ok E W" "node_inv E W n"
  shows "node_inv E W n'"
proof -
  have "ext_ok E" "storage_inv E (nd_storage n)" using summary_request(2,3) by (simp_all add: node_ext_okD node_invD)
  then show ?thesis
  proof (cases rule: tip_state_cases)
    case (ok st)
    show ?thesis by (rule get_summary_spec [OF summary_request(2,3) ok(1)]) (use summary_request(1) quiet_inv in auto)
  next
    case bad
    show ?thesis by (rule get_summary_panic [OF summary_request(2,3) bad(1)]) (use summary_request(1) quiet_inv in auto)
  qed
qed

lemma node_step_inv:
  assumes "node_step E W n n'" and "node_ext_ok E W" and "node_inv E W n"
  shows "node_inv E W n'"
  using assms
proof (induction rule: node_step.induct)
  case (new_block b p n r s)
  with new_block_keeps show ?case by blast
next
  case (tx_request now routes t n a n')
  with send_tx_keeps show ?case by blast
next
  case (abbr_request h n ra n')
  from get_abbr_block_spec [OF abbr_request(2,3), of h] abbr_request(1) show ?case
    by (auto dest: quiet_inv)
next
  case (summary_request n rs n')
  from summary_keeps [OF this] show ?case .
next
  case (block_request h n rb n')
  from on_storage_get_block [OF block_request(2,3), of h] block_request(1) show ?case
    by (auto simp: node_get_block_def dest: quiet_inv)
next
  case (lz4_request h limit n rl n')
  then obtain r1 where r1: "lz4_loop E (min limit 10000000) h (0, [], []) n = Some (r1, n')"
    by (auto simp: get_lz4_blocks_def elim: bind_st_cases split: option.splits)
  from lz4_loop_quiet [OF lz4_request(2) r1 lz4_request(3)] show ?case by (rule quiet_inv)
next
  case (branch_request h elem key n rp n')
  from get_smt_branch_spec [OF branch_request(2,3), of h elem key] branch_request(1) show ?case
    by (auto dest: quiet_inv)
next
  case (stakers_request h n rk n')
  from get_stakers_raw_spec [OF stakers_request(2,3), of h] stakers_request(1) show ?case
    by (auto dest: quiet_inv)
next
  case (changes_request oix h covhash n rc n')
  from get_coin_changes_spec [OF changes_request(2,3), of oix h covhash] changes_request(1)
  show ?case by (auto dest: quiet_inv)
qed

lemma node_reach_inv: "node_reach E W n \<Longrightarrow> node_ext_ok E W \<Longrightarrow> node_inv E W n"
proof (induction rule: node_reach.induct)
  case (start s net)
  then show ?case by (simp add: node_start_inv storage_reach_inv node_ext_okD)
next
  case (step n n')
  then show ?case by (blast intro: node_step_inv)
qed

section \<open>Sending transactions\<close>

lemma send_tx_cases:
  assumes "send_tx E W now routes t n = (a, n')"
  obtains (recent) "a = Refused RecentlySeen" and "n' = n"
  | (applied) r m where "apply_transaction E t (st_mempool (nd_storage n)) = (r, m)"
      and "n' = n\<lparr>recent := cache_put (evict_recent W) (hash_nosigs E t) now (recent n),
             nd_storage := (nd_storage n)\<lparr>st_mempool := m\<rparr>\<rparr>"
      and "a = (case r of Ok _ \<Rightarrow> Accepted (take 16 routes) | Err e \<Rightarrow> Refused (Invalid e)
              | Panic p \<Rightarrow> SendPanic p)"
proof (cases "recently_seen E now t n")
  case True
  with assms recent show thesis by (simp add: send_tx_def)
next
  case False
  obtain r m where "apply_transaction E t (st_mempool (nd_storage n)) = (r, m)" by fastforce
  with False assms applied [of r m] show thesis by (cases r) (simp_all add: send_tx_def Let_def)
qed

text \<open>A sequence of submissions, with the answers.\<close>

fun send_txs ::
    "('f, 's, 'u, 'k, 'x) ext_scheme \<Rightarrow> ('s, 't, 'y) wire_scheme \<Rightarrow>
     (nat \<times> string list \<times> tx) list \<Rightarrow> ('f, 'u, 't) node \<Rightarrow> send_reply list \<times> ('f, 'u, 't) node" where
  "send_txs E W [] n = ([], n)"
| "send_txs E W ((now, routes, t) # cs) n =
     (let (a, n) = send_tx E W now routes t n; (as, n) = send_txs E W cs n in (a # as, n))"

text \<open>A transaction that is in the pool's set of hashes is not accepted again.\<close>

lemma send_tx_known:
  assumes "send_tx E W now routes t n = (a, n')"
  shows "txx_in_state (st_mempool (nd_storage n)) \<subseteq> txx_in_state (st_mempool (nd_storage n')) \<and>
    (a = Accepted ns \<longrightarrow> hash_nosigs E t \<notin> txx_in_state (st_mempool (nd_storage n)) \<and>
      hash_nosigs E t \<in> txx_in_state (st_mempool (nd_storage n')))"
  using assms
proof (cases rule: send_tx_cases)
  case (applied r m)
  from txx_mono [OF applied(1)] have "txx_in_state (st_mempool (nd_storage n)) \<subseteq> txx_in_state m" .
  moreover have "hash_nosigs E t \<notin> txx_in_state (st_mempool (nd_storage n)) \<and>
      hash_nosigs E t \<in> txx_in_state m" if "r = Ok ()"
    using applied(1) that by (cases rule: apply_transaction_cases [of "st_mempool (nd_storage n)" E t]) auto
  ultimately show ?thesis using applied(2,3) by (cases r) simp_all
qed auto

lemma send_txs_known:
  "send_txs E W cs n = (as, n') \<Longrightarrow> i < length cs \<Longrightarrow> as ! i = Accepted ns \<Longrightarrow>
   hash_nosigs E (snd (snd (cs ! i))) \<notin> txx_in_state (st_mempool (nd_storage n))"
proof (induction cs arbitrary: n as i)
  case (Cons c cs)
  obtain now routes t where c: "c = (now, routes, t)" by (cases c) auto
  with Cons.prems(1) obtain a n1 as1 where a: "send_tx E W now routes t n = (a, n1)"
    and rest: "send_txs E W cs n1 = (as1, n')" and as: "as = a # as1"
    by (auto split: prod.splits)
  show ?case
  proof (cases i)
    case 0
    with send_tx_known [OF a] Cons.prems(3) as c show ?thesis by simp
  next
    case (Suc j)
    with Cons.IH [OF rest, of j] Cons.prems(2,3) as send_tx_known [OF a] show ?thesis by auto
  qed
qed simp

section \<open>Coins\<close>

text \<open>
  What the queries of the coin index mean, in terms of the coins there have been: each has
  its own id and is not spent before it is created.
\<close>

definition index_ok :: "coin_index \<Rightarrow> coin_info list \<Rightarrow> bool" where
  "index_ok ix coins \<longleftrightarrow>
     inj_on coin_id_of (set coins) \<and>
     (\<forall>c\<in>set coins. \<forall>i. spend_info c = Some i \<longrightarrow> create_height c \<le> spend_height i) \<and>
     (\<forall>a h. set (unspent_by ix a h) = {c \<in> set coins. ci_covhash c = a \<and> create_height c \<le> h \<and>
        (\<forall>i. spend_info c = Some i \<longrightarrow> h < spend_height i)}) \<and>
     (\<forall>a h k. set (created_between ix a h k) = {c \<in> set coins. ci_covhash c = a \<and>
        h \<le> create_height c \<and> create_height c \<le> k}) \<and>
     (\<forall>a h k. set (spent_between ix a h k) = {c \<in> set coins. ci_covhash c = a \<and>
        (\<exists>i. spend_info c = Some i \<and> h \<le> spend_height i \<and> spend_height i \<le> k)})"

lemma index_okD:
  assumes "index_ok ix coins"
  shows "inj_on coin_id_of (set coins)"
    and "c \<in> set coins \<Longrightarrow> spend_info c = Some i \<Longrightarrow> create_height c \<le> spend_height i"
    and "set (unspent_by ix a h) = {c \<in> set coins. ci_covhash c = a \<and> create_height c \<le> h \<and>
        (\<forall>i. spend_info c = Some i \<longrightarrow> h < spend_height i)}"
    and "set (created_between ix a h k) = {c \<in> set coins. ci_covhash c = a \<and>
        h \<le> create_height c \<and> create_height c \<le> k}"
    and "set (spent_between ix a h k) = {c \<in> set coins. ci_covhash c = a \<and>
        (\<exists>i. spend_info c = Some i \<and> h \<le> spend_height i \<and> spend_height i \<le> k)}"
  using assms unfolding index_ok_def by simp_all

lemma at_height: "h \<le> x \<and> x \<le> h \<longleftrightarrow> x = h" for h x :: u64
  by auto

lemma deletions_Ok:
  "\<forall>c\<in>set cs. spend_info c \<noteq> None \<Longrightarrow>
   deletions cs = Ok (map (\<lambda>c. Delete (coin_id_of c) (spend_txhash (the (spend_info c)))) cs)"
  by (induction cs) auto

text \<open>Below and at a height.\<close>

lemma u64_pred_cases:
  assumes "h \<noteq> (0 :: u64)"
  shows "x \<le> h - 1 \<or> x = h \<longleftrightarrow> x \<le> h" and "h - 1 < x \<longleftrightarrow> h \<le> x"
proof -
  have "unat (h - 1) = unat h - 1" and "0 < unat h"
    using assms by (simp_all add: unat_minus_one unat_gt_0)
  then show "x \<le> h - 1 \<or> x = h \<longleftrightarrow> x \<le> h" and "h - 1 < x \<longleftrightarrow> h \<le> x"
    by (auto simp: word_le_nat_alt word_less_nat_alt word_unat_eq_iff)
qed

lemma unspent_recurrence:
  assumes "index_ok ix coins" and "h \<noteq> 0"
  shows "set (unspent_by ix a h) =
    (set (unspent_by ix a (h - 1)) \<union> set (created_between ix a h h)) - set (spent_between ix a h h)"
proof -
  have un: "\<And>k. set (unspent_by ix a k) = {c \<in> set coins. ci_covhash c = a \<and> create_height c \<le> k \<and>
      (\<forall>i. spend_info c = Some i \<longrightarrow> k < spend_height i)}"
    by (rule index_okD(3) [OF assms(1)])
  have cr: "set (created_between ix a h h) = {c \<in> set coins. ci_covhash c = a \<and> create_height c = h}"
    unfolding index_okD(4) [OF assms(1)] at_height ..
  have sp: "set (spent_between ix a h h) = {c \<in> set coins. ci_covhash c = a \<and>
      (\<exists>i. spend_info c = Some i \<and> spend_height i = h)}"
    unfolding index_okD(5) [OF assms(1)] at_height ..
  note le = index_okD(2) [OF assms(1)]
  have "(create_height c \<le> h \<and> (\<forall>i. spend_info c = Some i \<longrightarrow> h < spend_height i)) \<longleftrightarrow>
      ((create_height c \<le> h - 1 \<and> (\<forall>i. spend_info c = Some i \<longrightarrow> h - 1 < spend_height i)) \<or>
       create_height c = h) \<and> \<not> (\<exists>i. spend_info c = Some i \<and> spend_height i = h)"
    if "c \<in> set coins" for c
  proof (cases "spend_info c")
    case None
    then show ?thesis by (simp add: u64_pred_cases(1) [OF assms(2), symmetric])
  next
    case (Some i)
    note pre = u64_pred_cases [OF assms(2)]
    have "create_height c = h \<Longrightarrow> h \<le> spend_height i" using le [OF that Some] by simp
    then have "(create_height c \<le> h \<and> h < spend_height i) \<longleftrightarrow>
        ((create_height c \<le> h - 1 \<and> h \<le> spend_height i) \<or> create_height c = h) \<and> spend_height i \<noteq> h"
      unfolding pre(1) [of "create_height c", symmetric] order.strict_iff_order [of h] by blast
    with Some pre(2) show ?thesis by simp
  qed
  then show ?thesis unfolding un cr sp by auto
qed

section \<open>Properties\<close>

text \<open>C21: In every state a node can reach, through blocks, transactions and RPC requests of any kind,
  the storage invariant holds and no cache of the RPC server (abbreviated blocks, summaries,
  transaction trees) disagrees with the tables.\<close>

theorem node_reachable_inv:
  assumes "node_reach E W n" and "node_ext_ok E W"
  shows "node_inv E W n"
  by (rule node_reach_inv [OF assms])

text \<open>C22: The summary a node gives of itself names its tip: the height is the highest stored one, and
  above genesis the header and the proof are those in the tables.  Nothing but caches
  changes.\<close>

theorem get_summary_is_tip:
  assumes "node_ext_ok E W" and "node_inv E W n" and "tip_state E (nd_storage n) = Ok st"
    and "highest_height (nd_storage n) \<noteq> 0"
  shows "\<exists>n' b p. block_at E (db (nd_storage n)) (highest_height (nd_storage n)) = Some b \<and>
    proof_at E (db (nd_storage n)) (highest_height (nd_storage n)) = Some p \<and>
    get_summary E W n = (Ok \<lparr>ss_netid = network n, ss_height = highest_height (nd_storage n),
      ss_header = b_header b, ss_proof = p\<rparr>, n') \<and> quiet E W n n'"
proof (rule get_summary_spec [OF assms(1-3)])
  fix n' v
  assume "get_summary E W n = (Ok v, n')" and "quiet E W n n'"
    and "highest_height (nd_storage n) \<noteq> 0 \<Longrightarrow>
      summary_at E (network n) (db (nd_storage n)) (highest_height (nd_storage n)) = Some v"
  with assms(4) show ?thesis by (auto simp: summary_at_def split: option.splits)
qed

text \<open>C23: A request for compressed blocks from a stored height on ends, and its answer decodes to the
  \<open>c\<close> consecutive stored blocks from that height, at least one, with their proofs in the same
  order (and possibly the proof of one more block).  The encodings fit the limit, capped at ten
  million bytes, unless there is only one block, and the batch is as long as the limit and the
  chain allow.\<close>

theorem get_lz4_blocks_batch:
  assumes "node_ext_ok E W" and "node_inv E W n" and "1 \<le> unat h"
    and "unat h \<le> unat (highest_height (nd_storage n))"
    and "unat (highest_height (nd_storage n)) < 2 ^ 63 - 1"
  shows "\<exists>c j n'. 1 \<le> c \<and> c \<le> j \<and> j \<le> Suc c \<and>
    unat h + j \<le> Suc (unat (highest_height (nd_storage n))) \<and>
    get_lz4_blocks E W h size_limit n =
      Some (Ok (Some (lz4_text W (map fst (run E (db (nd_storage n)) h c),
        map snd (run E (db (nd_storage n)) h j)))), n') \<and>
    quiet E W n n' \<and>
    (c = 1 \<or> run_size E (run E (db (nd_storage n)) h c) \<le> min size_limit 10000000) \<and>
    (unat h + c = Suc (unat (highest_height (nd_storage n))) \<or>
      min size_limit 10000000 < run_size E (run E (db (nd_storage n)) h (Suc c)))"
proof (rule lz4_batch [OF assms, of "min size_limit 10000000"])
  fix c j n'
  assume *: "quiet E W n n'" "1 \<le> c" "c \<le> j" "j \<le> Suc c"
      "unat h + j \<le> Suc (unat (highest_height (nd_storage n)))"
    and loop: "lz4_loop E (min size_limit 10000000) h (0, [], []) n =
      Some (Ok (Some (map fst (run E (db (nd_storage n)) h c),
        map snd (run E (db (nd_storage n)) h j))), n')"
    and sizes: "c = 1 \<or> run_size E (run E (db (nd_storage n)) h c) \<le> min size_limit 10000000"
      "unat h + c = Suc (unat (highest_height (nd_storage n))) \<or>
        min size_limit 10000000 < run_size E (run E (db (nd_storage n)) h (Suc c))"
  have "get_lz4_blocks E W h size_limit n =
      Some (Ok (Some (lz4_text W (map fst (run E (db (nd_storage n)) h c),
        map snd (run E (db (nd_storage n)) h j)))), n')"
    using loop by (simp add: get_lz4_blocks_def)
  with * sizes show ?thesis by blast
qed

text \<open>C24: Any peer can stop a node: a request for a branch of the stakes tree at a stored height whose
  state can be rebuilt reaches a \<^verbatim>\<open>todo!()\<close>, and the process aborts.\<close>

theorem get_smt_branch_stakes_aborts:
  assumes "node_ext_ok E W" and "node_inv E W n" and "state_at E (nd_storage n) h = Ok (Some st)"
  shows "fst (get_smt_branch E W h Stakes key n) = Panic TodoReached"
proof -
  from assms(3) obtain b where "block_at E (db (nd_storage n)) h = Some b" by (rule state_at_Some)
  with assms(3) show ?thesis
    by (rule_tac get_smt_branch_spec [OF assms(1,2), of h Stakes key]) (simp add: branch_of_def)
qed

text \<open>C25: Gossip of a transaction ends: among any sequence of submissions between two rebases, at most
  one submission of a transaction (whatever its signatures) is accepted and passed on to the
  neighbours.\<close>

theorem gossip_at_most_once:
  assumes "send_txs E W cs n = (as, n')" and "i < j" and "j < length cs"
    and "hash_nosigs E (snd (snd (cs ! i))) = hash_nosigs E (snd (snd (cs ! j)))"
    and "as ! i = Accepted ns"
  shows "as ! j \<noteq> Accepted ms"
  using assms
proof (induction cs arbitrary: n as i j)
  case (Cons c cs)
  obtain now routes t where c: "c = (now, routes, t)" by (cases c) auto
  with Cons.prems(1) obtain a n1 as1 where a: "send_tx E W now routes t n = (a, n1)"
    and rest: "send_txs E W cs n1 = (as1, n')" and as: "as = a # as1"
    by (auto split: prod.splits)
  obtain j' where j: "j = Suc j'" using Cons.prems(2) by (cases j) auto
  show ?case
  proof (cases i)
    case 0
    with send_tx_known [OF a] send_txs_known [OF rest, of j'] Cons.prems(3-5) as c j
    show ?thesis by auto
  next
    case (Suc i')
    with Cons.IH [OF rest, of i' j'] Cons.prems(2-5) as j show ?thesis by simp
  qed
qed simp

text \<open>A transaction is not looked at twice within ten seconds: after a submission that was not
  refused as recently seen, accepted or not, another one with the same hash less than ten
  seconds later is refused without any change, as long as the entry has not been evicted.\<close>

theorem send_tx_rate_limit:
  assumes "send_tx E W t0 r0 t n = (a, n1)" and "a \<noteq> Refused RecentlySeen"
    and "map_of (recent n1) (hash_nosigs E t) \<noteq> None" and "evict_ok (evict_recent W)"
    and "hash_nosigs E t' = hash_nosigs E t" and "t1 - t0 < 10 * 10 ^ 9"
  shows "send_tx E W t1 r1 t' n1 = (Refused RecentlySeen, n1)"
  using assms(1)
proof (cases rule: send_tx_cases)
  case (applied r m)
  from assms(3) obtain v where v: "map_of (recent n1) (hash_nosigs E t) = Some v" by blast
  then have "map_of (evict_recent W (AList.update (hash_nosigs E t) t0 (recent n))) (hash_nosigs E t) = Some v"
    using applied(2) by (simp add: cache_put_def)
  then have "map_of (AList.update (hash_nosigs E t) t0 (recent n)) (hash_nosigs E t) = Some v"
    using assms(4) unfolding evict_ok_def by blast
  then have "v = t0" by (simp add: update_conv)
  with v assms(5,6) show ?thesis by (simp add: send_tx_def recently_seen_def)
qed (use assms(2) in simp)

text \<open>C26: The coin changes of a block are the difference of the wallets: the unspent coins of an address
  at a stored height are those at the height before, with the added coins in and the deleted
  coins out.  The answer is the additions followed by the deletions, and asking for it
  never hits the \<^verbatim>\<open>unwrap\<close> of a missing spend.\<close>

theorem coin_changes_are_differences:
  assumes "node_ext_ok E W" and "node_inv E W n" and "index_ok ix coins"
    and "block_at E (db (nd_storage n)) h = Some b"
  shows "\<exists>added deleted n'. get_coin_changes E (Some ix) h a n =
      (Ok (Some (map Add added @ map (\<lambda>(c, t). Delete c t) deleted)), n') \<and> quiet E W n n' \<and>
    set (the (get_some_coins (Some ix) h a)) =
      (set (the (get_some_coins (Some ix) (h - 1) a)) \<union> set added) - set (map fst deleted)"
proof -
  note ext = node_ext_okD [OF assms(1)]
  have inv: "tables_inv E (db (nd_storage n))" using assms(2) by (rule node_invD)
  have h: "h \<noteq> 0" and bind: "sql_bindable E h"
    using block_at_ex [OF ext(2) inv, of h] assms(4) block_at_bindable [OF ext(2) inv assms(4)] by auto
  let ?del = "spent_between ix a h h" let ?add = "created_between ix a h h"
  let ?pair = "\<lambda>c. (coin_id_of c, spend_txhash (the (spend_info c)))"
  have "\<forall>c\<in>set ?del. spend_info c \<noteq> None" unfolding index_okD(5) [OF assms(3)] by auto
  then have del: "deletions ?del = Ok (map (\<lambda>(c, t). Delete c t) (map ?pair ?del))"
    by (simp add: deletions_Ok)
  obtain n' where "get_coin_changes E (Some ix) h a n =
      (Ok (Some (map (\<lambda>c. Add (coin_id_of c)) ?add @ map (\<lambda>(c, t). Delete c t) (map ?pair ?del))), n')"
    and q: "quiet E W n n'"
    by (rule get_coin_changes_spec [OF assms(1,2), of "Some ix" h a])
      (use bind assms(4) del in simp)
  then have "get_coin_changes E (Some ix) h a n = (Ok (Some (map Add (map coin_id_of ?add) @
      map (\<lambda>(c, t). Delete c t) (map ?pair ?del))), n')" by (simp add: comp_def)
  moreover have inj: "inj_on coin_id_of (set coins)" by (rule index_okD(1) [OF assms(3)])
  have sub: "set (unspent_by ix a (h - 1)) \<union> set ?add \<subseteq> set coins" "set ?del \<subseteq> set coins"
    unfolding index_okD(3-5) [OF assms(3)] by auto
  have "coin_id_of ` set (unspent_by ix a h) =
      (coin_id_of ` set (unspent_by ix a (h - 1)) \<union> coin_id_of ` set ?add) - coin_id_of ` set ?del"
    unfolding unspent_recurrence [OF assms(3) h] image_Un [symmetric]
    by (rule inj_on_image_set_diff [OF inj]) (use sub in auto)
  then have "set (the (get_some_coins (Some ix) h a)) =
      (set (the (get_some_coins (Some ix) (h - 1) a)) \<union> set (map coin_id_of ?add)) -
      set (map fst (map ?pair ?del))"
    by (simp add: get_some_coins_def image_image comp_def)
  ultimately show ?thesis using q by blast
qed

section \<open>Witnesses\<close>

definition demo_node :: "(nat, demo_unsealed, (hashval \<times> tx) list) node" where
  "demo_node = node_start Custom02 demo_storage1"

lemma demo_node_ext: "node_ext_ok demo demo_wire"
  using demo_wire_ok demo_ext_ok demo_laws by (simp add: node_ext_ok_def)

lemma demo_node_reach: "node_reach demo demo_wire demo_node"
  unfolding demo_node_def by (rule node_reach.start [OF demo_reach1])

lemma demo_node_inv: "node_inv demo demo_wire demo_node"
  by (rule node_reach_inv [OF demo_node_reach demo_node_ext])

theorem node_reachable_inv_witness: "node_inv demo demo_wire demo_node"
  by (rule node_reachable_inv [OF demo_node_reach demo_node_ext])

lemma demo_node_storage [simp]: "nd_storage demo_node = demo_storage1"
  by (simp add: demo_node_def node_start_def)

theorem get_summary_is_tip_witness:
  "\<exists>n' p. get_summary demo demo_wire demo_node = (Ok \<lparr>ss_netid = Custom02, ss_height = 1,
      ss_header = demo_header 1 2, ss_proof = p\<rparr>, n')"
proof -
  from demo_tip1 obtain st where st: "tip_state demo (nd_storage demo_node) = Ok st" by auto
  from get_summary_is_tip [OF demo_node_ext demo_node_inv st] demo_highest1 demo_block_at1
  show ?thesis by (auto simp: demo_block_def demo_node_def node_start_def)
qed

theorem get_lz4_blocks_batch_witness:
  "\<exists>b p n'. get_lz4_blocks demo demo_wire 1 500000 demo_node =
    Some (Ok (Some (lz4_text demo_wire ([b], [p]))), n')"
proof -
  have tip: "highest_height (nd_storage demo_node) = 1" using demo_highest1 by simp
  then have "1 \<le> unat (1::u64)" "unat (1::u64) \<le> unat (highest_height (nd_storage demo_node))"
    "unat (highest_height (nd_storage demo_node)) < 2 ^ 63 - 1" by simp_all
  from get_lz4_blocks_batch [OF demo_node_ext demo_node_inv this, of 500000] tip
  obtain c j n' where "1 \<le> c" "c \<le> j" "unat (1::u64) + j \<le> Suc (unat (1::u64))"
    and ans: "get_lz4_blocks demo demo_wire 1 500000 demo_node =
      Some (Ok (Some (lz4_text demo_wire (map fst (run demo (db (nd_storage demo_node)) 1 c),
        map snd (run demo (db (nd_storage demo_node)) 1 j)))), n')"
    by (elim exE conjE) simp_all
  then have "c = 1" "j = 1" by simp_all
  with ans show ?thesis by auto
qed

theorem get_smt_branch_stakes_aborts_witness:
  "fst (get_smt_branch demo demo_wire 1 Stakes 0 demo_node) = Panic TodoReached"
  by (rule get_smt_branch_stakes_aborts [OF demo_node_ext demo_node_inv]) (simp add: demo_state1)

text \<open>A transaction is sent to a fresh node three times, the last time after twenty seconds.\<close>

definition demo_node0 :: "(nat, demo_unsealed, (hashval \<times> tx) list) node" where
  "demo_node0 = node_start Custom02 demo_storage"

definition demo_gossip_tx :: tx where
  "demo_gossip_tx = \<lparr>kind = OtherKind 0, outputs = [], tx_data = [], sigs = [[1]], tx_rest = [7]\<rparr>"

lemmas demo_send_defs =
  send_tx_def recently_seen_def demo_node0_def node_start_def apply_transaction_def
  demo_storage_defs WEIGHT_LIMIT_def checked_add_def demo_wire_def demo_gossip_tx_def cache_put_def

lemma demo_send: "fst (send_tx demo demo_wire 0 [''a''] demo_gossip_tx demo_node0) = Accepted [''a'']"
  by (simp add: demo_send_defs Let_def)

theorem gossip_at_most_once_witness:
  "fst (send_txs demo demo_wire
     [(0, [''a''], demo_gossip_tx), (1, [''a''], demo_gossip_tx), (20 * 10 ^ 9, [''b''], demo_gossip_tx)] demo_node0) ! 2
   \<noteq> Accepted [''b'']" (is "fst ?run ! 2 \<noteq> _")
proof -
  have run: "?run = (fst ?run, snd ?run)" by simp
  have "fst ?run ! 0 = Accepted [''a'']"
    using demo_send by (auto split: prod.splits)
  then show ?thesis
    by (intro gossip_at_most_once [OF run, of 0 2]) simp_all
qed

theorem send_tx_rate_limit_witness:
  "fst (send_tx demo demo_wire 5 [''b''] demo_gossip_tx (snd (send_tx demo demo_wire 0 [''a''] demo_gossip_tx demo_node0)))
    = Refused RecentlySeen"
proof -
  have run: "send_tx demo demo_wire 0 [''a''] demo_gossip_tx demo_node0 =
      (Accepted [''a''], snd (send_tx demo demo_wire 0 [''a''] demo_gossip_tx demo_node0))"
    by (rule prod_eqI) (simp_all add: demo_send)
  have "map_of (recent (snd (send_tx demo demo_wire 0 [''a''] demo_gossip_tx demo_node0)))
      (hash_nosigs demo demo_gossip_tx) \<noteq> None"
    by (simp add: demo_send_defs Let_def)
  moreover have "evict_ok (evict_recent demo_wire)" using demo_wire_ok(2) by (simp add: caches_ok_def)
  ultimately show ?thesis
    using send_tx_rate_limit [OF run, of demo_gossip_tx 5 "[''b'']"] by simp
qed

text \<open>Two coins of address 9: one spent in block 1, one created there.\<close>

definition demo_coins :: "coin_info list" where
  "demo_coins =
     [\<lparr>create_txhash = 1, create_index = 0, create_height = 0, ci_covhash = 9,
        spend_info = Some \<lparr>spend_txhash = 2, spend_height = 1\<rparr>\<rparr>,
      \<lparr>create_txhash = 2, create_index = 0, create_height = 1, ci_covhash = 9, spend_info = None\<rparr>]"

definition index_of :: "coin_info list \<Rightarrow> coin_index" where
  "index_of coins = \<lparr>
     unspent_by = (\<lambda>a h. filter (\<lambda>c. ci_covhash c = a \<and> create_height c \<le> h \<and>
       (case spend_info c of None \<Rightarrow> True | Some i \<Rightarrow> h < spend_height i)) coins),
     spent_between = (\<lambda>a h k. filter (\<lambda>c. ci_covhash c = a \<and>
       (case spend_info c of None \<Rightarrow> False | Some i \<Rightarrow> h \<le> spend_height i \<and> spend_height i \<le> k)) coins),
     created_between = (\<lambda>a h k. filter (\<lambda>c. ci_covhash c = a \<and> h \<le> create_height c \<and> create_height c \<le> k) coins),
     created_as = (\<lambda>t i. filter (\<lambda>c. coin_id_of c = (t, i)) coins)\<rparr>"

lemma index_of_ok:
  assumes "inj_on coin_id_of (set coins)"
    and "\<forall>c\<in>set coins. \<forall>i. spend_info c = Some i \<longrightarrow> create_height c \<le> spend_height i"
  shows "index_ok (index_of coins) coins"
  using assms unfolding index_ok_def index_of_def by (auto split: option.splits)

lemma demo_index_ok: "index_ok (index_of demo_coins) demo_coins"
  by (rule index_of_ok) (simp_all add: demo_coins_def coin_id_of_def)

theorem coin_changes_are_differences_witness:
  "\<exists>added deleted n'. get_coin_changes demo (Some (index_of demo_coins)) 1 9 demo_node =
      (Ok (Some (map Add added @ map (\<lambda>(c, t). Delete c t) deleted)), n') \<and>
    {(2, 0)} = ({(1, 0)} \<union> set added) - set (map fst deleted)"
proof -
  have "set (the (get_some_coins (Some (index_of demo_coins)) 1 9)) = {(2, 0)}"
    "set (the (get_some_coins (Some (index_of demo_coins)) (1 - 1) 9)) = {(1, 0)}"
    by (simp_all add: get_some_coins_def index_of_def demo_coins_def coin_id_of_def)
  with coin_changes_are_differences [OF demo_node_ext demo_node_inv demo_index_ok, of 1 _ 9]
    demo_block_at1
  show ?thesis by simp blast
qed

end
