(* ===== verification/Blksync.thy ===== *)
theory Blksync
  imports Node_Props
begin

text \<open>
  \<^verbatim>\<open>src/node/blksync.rs\<close> and \<^verbatim>\<open>blksync_loop\<close> of \<^verbatim>\<open>src/node.rs\<close>: fetching blocks from a peer
  and applying them.  The peer is a parameter whose answers are arbitrary and may differ from
  one request to the next; the two environment variables are arguments.  The loop over
  batches need not end, so \<open>None\<close> is the value of a synchronisation that never returns.
\<close>

section \<open>The peer\<close>

text \<open>\<open>p_lz4 k\<close> answers the \<open>k\<close>-th request for compressed blocks.\<close>

record peer =
  p_summary :: "state_summary reply"
  p_lz4 :: "nat \<Rightarrow> u64 \<Rightarrow> nat \<Rightarrow> string option reply"
  p_full_block :: "u64 \<Rightarrow> (block \<times> cproof) option reply"

section \<open>Batches\<close>

text \<open>One request: decode base64, decompress, deserialize.\<close>

definition fetch_batch ::
    "('s, 't, 'y) wire_scheme \<Rightarrow> peer \<Rightarrow> nat \<Rightarrow> u64 \<Rightarrow> (block list \<times> cproof list) res" where
  "fetch_batch W peer k height =
     bind_res (rpc ''timeout while getting compressed blocks'' ''failed to get compressed blocks''
       (p_lz4 peer k height 500000)) (\<lambda>compressed_blocks.
     case compressed_blocks of
       Some compressed \<Rightarrow>
         bind_res (option_to_res DecodeError (b64_decode W compressed)) (\<lambda>compressed_base64.
         bind_res (option_to_res DecodeError (lz4_decompress W compressed_base64)) (\<lambda>decompressed.
         option_to_res DecodeError (dec_batch W decompressed)))
     | None \<Rightarrow> Err (MissingBlock height))"

definition apply_resolved ::
    "('f, 's, 'u, 'k, 'x) ext_scheme \<Rightarrow> block \<Rightarrow> cproof \<Rightarrow> ('f, 'u) storage \<Rightarrow>
     unit res \<times> ('f, 'u) storage" where
  "apply_resolved E b p s =
     (let (r, s) = apply_block E b p s in (context_res ''could not apply a resolved block'' r, s))"

text \<open>The loop over one batch; the error names \<open>height\<close>, where the batch began.\<close>

fun apply_batch ::
    "('f, 's, 'u, 'k, 'x) ext_scheme \<Rightarrow> u64 \<Rightarrow> u64 \<Rightarrow> (block \<times> cproof) list \<Rightarrow> nat \<Rightarrow>
     ('f, 'u) storage \<Rightarrow> nat res \<times> ('f, 'u) storage" where
  "apply_batch E height last_applied_height [] num_blocks_applied s = (Ok num_blocks_applied, s)"
| "apply_batch E height last_applied_height ((block, cproof) # rest) num_blocks_applied s =
     (if height_of block \<noteq> last_applied_height then (Err (WantedBlock height (height_of block)), s)
      else
        bind_st (apply_resolved E block cproof s) (\<lambda>_ s.
        bind_st (checked_add last_applied_height 1, s) (\<lambda>last_applied_height s.
        apply_batch E height last_applied_height rest (Suc num_blocks_applied) s)))"

partial_function (option) sync_loop ::
    "('f, 's, 'u, 'k, 'x) ext_scheme \<Rightarrow> ('s, 't, 'y) wire_scheme \<Rightarrow> peer \<Rightarrow> u64 \<Rightarrow> nat \<Rightarrow> u64 \<Rightarrow> nat \<Rightarrow>
     ('f, 'u) storage \<Rightarrow> (nat res \<times> ('f, 'u) storage) option" where
  "sync_loop E W peer their_highest k height num_blocks_applied s =
     (if height \<le> their_highest then
        case fetch_batch W peer k height of
          Ok (blocks, cproofs) \<Rightarrow>
            (case apply_batch E height height (zip blocks cproofs) num_blocks_applied s of
               (Ok num_blocks_applied, s) \<Rightarrow>
                 (case checked_add height (of_nat (length blocks)) of
                    Ok height \<Rightarrow> sync_loop E W peer their_highest (Suc k) height num_blocks_applied s
                  | Err e \<Rightarrow> Some (Err e, s)
                  | Panic p \<Rightarrow> Some (Panic p, s))
             | (Err e, s) \<Rightarrow> Some (Err e, s)
             | (Panic p, s) \<Rightarrow> Some (Panic p, s))
        | Err e \<Rightarrow> Some (Err e, s)
        | Panic p \<Rightarrow> Some (Panic p, s)
      else Some (Ok num_blocks_applied, s))"

section \<open>The legacy protocol\<close>

text \<open>
  The blocks are fetched up to 64 at a time but come out of the stream in order, so the
  first failure ends the loop after the blocks before it have been applied.
\<close>

definition fetch_full_block :: "peer \<Rightarrow> u64 \<Rightarrow> (block \<times> cproof) res" where
  "fetch_full_block peer height =
     (case p_full_block peer height of
        NoAnswer \<Rightarrow> Err (Context ''timeout'' TimedOut)
      | Failed \<Rightarrow> Err RpcFailed
      | Answer None \<Rightarrow> Err (MysteriouslyMissing height)
      | Answer (Some (block, cproof)) \<Rightarrow>
          if height_of block \<noteq> height then Err (WantedBlock height (height_of block))
          else Ok (block, cproof))"

definition sync_heights :: "u64 \<Rightarrow> u64 \<Rightarrow> nat \<Rightarrow> u64 list" where
  "sync_heights my_highest their_highest batch =
     take batch (map of_nat [Suc (unat my_highest)..<Suc (unat their_highest)])"

fun legacy_loop ::
    "('f, 's, 'u, 'k, 'x) ext_scheme \<Rightarrow> peer \<Rightarrow> u64 list \<Rightarrow> nat \<Rightarrow> ('f, 'u) storage \<Rightarrow>
     nat res \<times> ('f, 'u) storage" where
  "legacy_loop E peer [] toret s = (Ok toret, s)"
| "legacy_loop E peer (height # heights) toret s =
     bind_st (fetch_full_block peer height, s) (\<lambda>(block, proof) s.
     bind_st (apply_resolved E block proof s) (\<lambda>_ s.
     legacy_loop E peer heights (Suc toret) s))"

definition their_height :: "peer \<Rightarrow> u64 res" where
  "their_height peer =
     bind_res (rpc ''timed out getting summary'' ''cannot get their highest block'' (p_summary peer))
       (\<lambda>summary. Ok (ss_height summary))"

definition attempt_blksync_legacy ::
    "('f, 's, 'u, 'k, 'x) ext_scheme \<Rightarrow> nat option \<Rightarrow> peer \<Rightarrow> ('f, 'u) storage \<Rightarrow>
     nat res \<times> ('f, 'u) storage" where
  "attempt_blksync_legacy E batch peer s =
     bind_st (their_height peer, s) (\<lambda>their_highest s.
     let my_highest = highest_height s in
     if their_highest \<le> my_highest then (Ok 0, s)
     else legacy_loop E peer
       (sync_heights my_highest their_highest (case batch of Some d \<Rightarrow> d | None \<Rightarrow> 1000)) 0 s)"

section \<open>One attempt, and the loop of the node\<close>

record sync_env =
  old_blksync :: bool
  blksync_batch :: "nat option"

definition attempt_blksync ::
    "('f, 's, 'u, 'k, 'x) ext_scheme \<Rightarrow> ('s, 't, 'y) wire_scheme \<Rightarrow> sync_env \<Rightarrow> peer \<Rightarrow>
     ('f, 'u) storage \<Rightarrow> (nat res \<times> ('f, 'u) storage) option" where
  "attempt_blksync E W env peer s =
     (if old_blksync env then Some (attempt_blksync_legacy E (blksync_batch env) peer s)
      else
        case their_height peer of
          Ok their_highest \<Rightarrow>
            let my_highest = highest_height s in
            if their_highest \<le> my_highest then Some (Ok 0, s)
            else (case checked_add my_highest 1 of
                    Ok height \<Rightarrow> sync_loop E W peer their_highest 0 height 0 s
                  | Err e \<Rightarrow> Some (Err e, s)
                  | Panic p \<Rightarrow> Some (Panic p, s))
        | Err e \<Rightarrow> Some (Err e, s)
        | Panic p \<Rightarrow> Some (Panic p, s))"

text \<open>
  One round of \<^verbatim>\<open>blksync_loop\<close>: the first of the routes is tried.  A failure is logged
  together with the header of the tip, which is read for that.
\<close>

definition blksync_round ::
    "('f, 's, 'u, 'k, 'x) ext_scheme \<Rightarrow> ('s, 't, 'y) wire_scheme \<Rightarrow> sync_env \<Rightarrow>
     (string \<Rightarrow> peer option) \<Rightarrow> (string \<Rightarrow> bool) \<Rightarrow> string list \<Rightarrow> ('f, 'u) storage \<Rightarrow>
     (unit res \<times> ('f, 'u) storage) option" where
  "blksync_round E W env connect is_addr routes s =
     (case routes of
        [] \<Rightarrow> Some (Ok (), s)
      | route # _ \<Rightarrow>
          let fallible_part =
            (case connect route of
               Some client \<Rightarrow>
                 if is_addr route then attempt_blksync E W env client s
                 else Some (Err ParseError, s)
             | None \<Rightarrow> Some (Err RpcFailed, s))
          in (case fallible_part of
                None \<Rightarrow> None
              | Some (Err e, s) \<Rightarrow> Some (bind_st (highest_state E s) (\<lambda>_ s. (Ok (), s)))
              | Some (Ok blklen, s) \<Rightarrow> Some (Ok (), s)
              | Some (Panic p, s) \<Rightarrow> Some (Panic p, s)))"

section \<open>The contract of the storage, as the synchronisation sees it\<close>

lemma apply_resolved_simps:
  "apply_resolved E b p s = (Ok u, s') \<longleftrightarrow> apply_block E b p s = (Ok u, s')"
  "apply_resolved E b p s = (Panic q, s') \<longleftrightarrow> apply_block E b p s = (Panic q, s')"
  "apply_resolved E b p s = (Err e, s') \<Longrightarrow> \<exists>e'. apply_block E b p s = (Err e', s')"
  by (cases "apply_block E b p s"; cases "fst (apply_block E b p s)"; auto simp: apply_resolved_def)+

lemma apply_resolved_state: "snd (apply_resolved E b p s) = snd (apply_block E b p s)"
  by (simp add: apply_resolved_def split: prod.splits)

interpretation sync: proof_store
  "\<lambda>s. ext_ok E \<and> storage_inv E s" tip_height "\<lambda>s. block_at E (db s)" "apply_resolved E"
  "\<lambda>s. proof_at E (db s)" for E :: "('f, 's, 'u, 'k, 'x) ext_scheme"
proof (unfold_locales, goal_cases)
  case (1 s b p r s')
  have "apply_block E b p s = (fst (apply_block E b p s), s')"
    using 1(2) apply_resolved_state [of E b p s] by (simp add: prod_eq_iff)
  with st.put_inv [OF 1(1)] show ?case .
next
  case (2 s b p s')
  with st.put_Ok [OF 2(1)] show ?case by (simp add: apply_resolved_simps)
next
  case (3 s b p e s')
  from apply_resolved_simps(3) [OF 3(2)] obtain e' where "apply_block E b p s = (Err e', s')" by blast
  from st.put_Err [OF 3(1) this] show ?case .
next
  case (4 s b p q s')
  with st.put_Panic [OF 4(1)] show ?case by (simp add: apply_resolved_simps)
next
  case (5 s h)
  then show ?case by (rule st.block_of_ex)
next
  case (6 s h b)
  then show ?case by (rule st.block_of_height)
next
  case (7 s h)
  then show ?case by (rule st.proof_of_ex)
next
  case (8 s b p s')
  with st.put_Ok_proof [OF 8(1)] show ?case by (simp add: apply_resolved_simps)
next
  case (9 s b p e s')
  from apply_resolved_simps(3) [OF 9(2)] obtain e' where "apply_block E b p s = (Err e', s')" by blast
  from st.put_Err_proof [OF 9(1) this] show ?case .
qed

end
