(* ===== verification/Sync_Props.thy ===== *)
theory Sync_Props
  imports Blksync
begin

text \<open>
  What a synchronisation can do to a storage, whoever the peer is: add some blocks in order,
  each through \<^verbatim>\<open>apply_block\<close>.  Whether it returns depends on the peer; with a node that
  serves its own chain it does.
\<close>

section \<open>Arbitrary peers\<close>

text \<open>
  Some blocks were added; on success that is all, otherwise the storage may in addition have
  refused one more.
\<close>

definition sync_ran ::
    "('f, 's, 'u, 'k, 'x) ext_scheme \<Rightarrow> nat \<Rightarrow> ('f, 'u) storage \<Rightarrow> nat res \<Rightarrow> ('f, 'u) storage \<Rightarrow> bool" where
  "sync_ran E n s r s' \<longleftrightarrow> (\<exists>xs s1. grown (apply_resolved E) xs s s1 \<and>
     (case r of
        Ok m \<Rightarrow> s' = s1 \<and> m = n + length xs
      | _ \<Rightarrow> s' = s1 \<or> (\<exists>b p q. apply_resolved E b p s1 = (q, s') \<and> q \<noteq> Ok ())))"

lemma sync_ran_idle: "sync_ran E n s (Ok n) s" "sync_ran E n s (Err e) s" "sync_ran E n s (Panic q) s"
  unfolding sync_ran_def by (intro exI [of _ "[]"] exI [of _ s]; simp)+

lemma sync_ran_trans:
  assumes "sync_ran E n s (Ok m) s1" and "sync_ran E m s1 r s'"
  shows "sync_ran E n s r s'"
proof -
  from assms(1) obtain xs where xs: "grown (apply_resolved E) xs s s1" "m = n + length xs"
    by (auto simp: sync_ran_def)
  from assms(2) obtain ys s2 where ys: "grown (apply_resolved E) ys s1 s2"
    and r: "case r of Ok l \<Rightarrow> s' = s2 \<and> l = m + length ys
      | _ \<Rightarrow> s' = s2 \<or> (\<exists>b p q. apply_resolved E b p s2 = (q, s') \<and> q \<noteq> Ok ())"
    unfolding sync_ran_def by blast
  have "grown (apply_resolved E) (xs @ ys) s s2" using xs(1) ys by (auto simp: grown_append)
  moreover have "case r of Ok l \<Rightarrow> s' = s2 \<and> l = n + length (xs @ ys)
      | _ \<Rightarrow> s' = s2 \<or> (\<exists>b p q. apply_resolved E b p s2 = (q, s') \<and> q \<noteq> Ok ())"
    using r xs(2) by (simp split: res.splits)
  ultimately show ?thesis unfolding sync_ran_def by blast
qed

lemma sync_ran_put:
  assumes "apply_resolved E b p s = (r, s')"
  shows "sync_ran E n s (case r of Ok _ \<Rightarrow> Ok (Suc n) | Err e \<Rightarrow> Err e | Panic q \<Rightarrow> Panic q) s'"
proof (cases r)
  case (Ok u)
  with assms show ?thesis
    unfolding sync_ran_def by (intro exI [of _ "[(b, p)]"] exI [of _ s']) (simp add: grown_Cons)
next
  case (Err e)
  with assms show ?thesis
    unfolding sync_ran_def by (intro exI [of _ "[]"] exI [of _ s]) auto
next
  case (Panic q)
  with assms show ?thesis
    unfolding sync_ran_def by (intro exI [of _ "[]"] exI [of _ s]) auto
qed

text \<open>One block, then the rest.\<close>

lemma sync_ran_bind:
  assumes "bind_st (apply_resolved E b p s) f = (r, s')"
    and "\<And>s1. f () s1 = (r, s') \<Longrightarrow> sync_ran E (Suc n) s1 r s'"
  shows "sync_ran E n s r s'"
  using assms(1)
proof (cases rule: bind_st_cases)
  case (ok u s1)
  then have "sync_ran E n s (Ok (Suc n)) s1" using sync_ran_put [of E b p s "Ok u" s1 n] by simp
  then show ?thesis using assms(2) [of s1] ok(2) by (auto intro: sync_ran_trans)
next
  case (err e)
  then show ?thesis using sync_ran_put [of E b p s "Err e" s' n] by simp
next
  case (panic q)
  then show ?thesis using sync_ran_put [of E b p s "Panic q" s' n] by simp
qed

lemma apply_batch_ran:
  "apply_batch E height nxt xs n s = (r, s') \<Longrightarrow> sync_ran E n s r s'"
proof (induction xs arbitrary: nxt n s)
  case Nil
  then show ?case by (auto intro: sync_ran_idle)
next
  case (Cons x xs)
  obtain b p where x: "x = (b, p)" by fastforce
  show ?case
  proof (cases "height_of b = nxt")
    case False
    with Cons.prems x show ?thesis by (auto intro: sync_ran_idle)
  next
    case True
    with Cons.prems x have "bind_st (apply_resolved E b p s) (\<lambda>_ s.
        bind_st (checked_add nxt 1, s) (\<lambda>nxt s. apply_batch E height nxt xs (Suc n) s)) = (r, s')"
      by simp
    then show ?thesis
    proof (rule sync_ran_bind)
      fix s1
      assume "bind_st (checked_add nxt 1, s1) (\<lambda>nxt s. apply_batch E height nxt xs (Suc n) s) = (r, s')"
      then show "sync_ran E (Suc n) s1 r s'"
        by (cases rule: bind_st_cases) (auto intro: Cons.IH sync_ran_idle)
    qed
  qed
qed

lemma legacy_loop_ran:
  "legacy_loop E peer hs n s = (r, s') \<Longrightarrow> sync_ran E n s r s'"
proof (induction hs arbitrary: n s)
  case Nil
  then show ?case by (auto intro: sync_ran_idle)
next
  case (Cons h hs)
  from Cons.prems have "bind_st (fetch_full_block peer h, s) (\<lambda>(block, proof) s.
      bind_st (apply_resolved E block proof s) (\<lambda>_ s. legacy_loop E peer hs (Suc n) s)) = (r, s')"
    by simp
  then show ?case
  proof (cases rule: bind_st_cases)
    case (ok x s1)
    then have "bind_st (apply_resolved E (fst x) (snd x) s) (\<lambda>_ s. legacy_loop E peer hs (Suc n) s) = (r, s')"
      by (simp add: split_beta)
    then show ?thesis by (rule sync_ran_bind) (rule Cons.IH)
  qed (auto intro: sync_ran_idle)
qed

lemma sync_loop_ran:
  assumes "sync_loop E W peer their k height n s = Some (r, s')"
  shows "sync_ran E n s r s'"
proof -
  have "E = E \<longrightarrow> sync_ran E n s (fst (r, s')) (snd (r, s'))"
  proof (rule sync_loop.raw_induct [where P =
      "\<lambda>E' W peer their k height n s y. E' = E \<longrightarrow> sync_ran E n s (fst y) (snd y)", OF _ assms],
      intro impI, goal_cases)
    case (1 loop E' W peer their k height n s y)
    show ?case
    proof (cases "height \<le> their")
      case False
      with 1(2) show ?thesis by (auto intro: sync_ran_idle)
    next
      case le: True
      show ?thesis
      proof (cases "fetch_batch W peer k height")
        case (Ok x)
        obtain bs ps where x: "x = (bs, ps)" by fastforce
        obtain r1 s1 where r1: "apply_batch E height height (zip bs ps) n s = (r1, s1)" by fastforce
        have ran: "sync_ran E n s r1 s1" by (rule apply_batch_ran [OF r1])
        show ?thesis
        proof (cases r1)
          case m: (Ok m)
          note body = 1(2) [unfolded 1(3)] le Ok x r1 m
          show ?thesis
          proof (cases "checked_add height (of_nat (length bs) :: u64)")
            case (Ok h)
            with body have "loop E W peer their (Suc k) h m s1 = Some y" by simp
            from 1(1) [OF this] ran m show ?thesis by (auto intro: sync_ran_trans)
          next
            case (Err e)
            then show ?thesis by simp
          next
            case (Panic q)
            with body have "y = (Panic q, s1)" by simp
            with ran m show ?thesis by (auto intro: sync_ran_trans sync_ran_idle)
          qed
        next
          case (Err e)
          with 1(2,3) le Ok x r1 ran show ?thesis by auto
        next
          case (Panic e)
          with 1(2,3) le Ok x r1 ran show ?thesis by auto
        qed
      qed (use 1(2) le in \<open>auto intro: sync_ran_idle\<close>)
    qed
  qed
  then show ?thesis by simp
qed

lemma attempt_blksync_ran:
  assumes "attempt_blksync E W env peer s = Some (r, s')"
  shows "sync_ran E 0 s r s'"
proof (cases "old_blksync env")
  case True
  with assms have "bind_st (their_height peer, s) (\<lambda>their s.
      let my = highest_height s in
      if their \<le> my then (Ok 0, s)
      else legacy_loop E peer (sync_heights my their
        (case blksync_batch env of Some d \<Rightarrow> d | None \<Rightarrow> 1000)) 0 s) = (r, s')"
    by (simp add: attempt_blksync_def attempt_blksync_legacy_def)
  then show ?thesis
    by (cases rule: bind_st_cases)
      (auto simp: Let_def intro: sync_ran_idle legacy_loop_ran split: if_splits)
next
  case False
  with assms show ?thesis
    by (auto simp: attempt_blksync_def Let_def intro: sync_ran_idle sync_loop_ran
        split: res.splits if_splits)
qed

lemma sync_ran_keeps:
  assumes "sync_ran E n s r s'" and "ext_ok E" and "storage_inv E s"
  shows "storage_inv E s'" and "block_at E (db s) h = Some c \<Longrightarrow> block_at E (db s') h = Some c"
proof -
  from assms(1) obtain xs s1 where xs: "grown (apply_resolved E) xs s s1"
    and s': "s' = s1 \<or> (\<exists>b p q. apply_resolved E b p s1 = (q, s'))"
    unfolding sync_ran_def by (cases r) (simp_all, blast+)
  have inv: "ext_ok E \<and> storage_inv E s" using assms(2,3) by simp
  from sync.grown_extends [OF inv xs] have inv1: "ext_ok E \<and> storage_inv E s1" by blast
  show "storage_inv E s'" using s' inv1 sync.put_inv [OF inv1] by blast
  assume c: "block_at E (db s) h = Some c"
  have "block_at E (db s1) h = Some c"
    using sync.apply_all_mono [OF inv _ c] xs unfolding grown_def by blast
  then show "block_at E (db s') h = Some c" using s' sync.put_mono [OF inv1] by blast
qed

section \<open>A peer that serves its own chain\<close>

text \<open>The tables \<open>d\<close> stay as they are while the peer answers; its caches may change.\<close>

definition serves ::
    "('f, 's, 'u, 'k, 'x) ext_scheme \<Rightarrow> ('s, 't, 'y) wire_scheme \<Rightarrow> tables \<Rightarrow>
     (nat \<Rightarrow> u64 \<Rightarrow> ('f, 'u, 't) node) \<Rightarrow> peer \<Rightarrow> bool" where
  "serves E W d node_at peer \<longleftrightarrow>
     (\<exists>summary. p_summary peer = Answer summary \<and> unat (ss_height summary) = length (history d)) \<and>
     (\<forall>k h. node_inv E W (node_at k h) \<and> db (nd_storage (node_at k h)) = d \<and>
        (\<forall>ans n'. get_lz4_blocks E W h 500000 (node_at k h) = Some (Ok ans, n') \<longrightarrow>
           p_lz4 peer k h 500000 = Answer ans))"

lemma run_append: "run E d h (a + b) = run E d h a @ run E d (h + of_nat a) b"
  by (induction a arbitrary: h) (simp_all add: algebra_simps)

lemma run_zip:
  "map Some bs = map (\<lambda>i. block_at E d (h + of_nat i)) [0..<m] \<Longrightarrow>
   map Some ps = map (\<lambda>i. proof_at E d (h + of_nat i)) [0..<m] \<Longrightarrow> run E d h m = zip bs ps"
proof (induction m arbitrary: h bs ps)
  case (Suc m)
  have upt: "map f [0..<Suc m] = f 0 # map (\<lambda>i. f (Suc i)) [0..<m]" for f :: "nat \<Rightarrow> 'z"
    by (simp add: upt_conv_Cons map_Suc_upt [symmetric] comp_def del: upt_Suc)
  from Suc.prems obtain b bs' p ps' where bp: "bs = b # bs'" "ps = p # ps'"
    and b: "block_at E d h = Some b" and p: "proof_at E d h = Some p"
    and bs': "map Some bs' = map (\<lambda>i. block_at E d (h + 1 + of_nat i)) [0..<m]"
    and ps': "map Some ps' = map (\<lambda>i. proof_at E d (h + 1 + of_nat i)) [0..<m]"
    unfolding upt by (auto simp: map_eq_Cons_conv algebra_simps)
  from Suc.IH [OF bs' ps'] bp b p show ?case by simp
qed simp

lemma zip_run: "c \<le> j \<Longrightarrow> zip (map fst (run E d h c)) (map snd (run E d h j)) = run E d h c"
proof (induction c arbitrary: h j)
  case (Suc c)
  then show ?case by (cases j) simp_all
qed simp

text \<open>A batch that is a piece of the peer's chain is applied block by block.\<close>

lemma apply_batch_run:
  assumes "codec_ok E" and "tables_inv E d"
  shows "1 \<le> unat h \<Longrightarrow> unat h + c \<le> Suc (length (history d)) \<Longrightarrow> length (history d) < 2 ^ 64 - 1 \<Longrightarrow>
    apply_batch E height h (run E d h c) n s = apply_all (apply_resolved E) (run E d h c) n s"
proof (induction c arbitrary: h n s)
  case (Suc c)
  obtain b where b: "block_at E d h = Some b"
    using block_at_ex [OF assms, of h] Suc.prems(1,2) by auto
  obtain p where p: "proof_at E d h = Some p" by (rule block_proof_ex [OF assms b])
  have hb: "height_of b = h" by (rule block_at_height [OF assms b])
  have suc: "unat (h + 1) = Suc (unat h)" using Suc.prems(2,3) by (intro unat_u64_Suc) simp
  then have add: "checked_add h 1 = Ok (h + 1)" by (simp add: checked_add_Ok_iff)
  have IH: "apply_batch E height (h + 1) (run E d (h + 1) c) n' s' =
      apply_all (apply_resolved E) (run E d (h + 1) c) n' s'" for n' s'
    by (rule Suc.IH) (use Suc.prems(2,3) suc in simp_all)
  from b p hb add show ?case by (simp add: IH)
qed simp

lemma fetch_from_server:
  assumes "node_ext_ok E W" and "batch_codec_ok W" and "serves E W d node_at peer"
    and "length (history d) < 2 ^ 63 - 1" and "1 \<le> unat h" and "unat h \<le> length (history d)"
  obtains c j where "1 \<le> c" and "c \<le> j" and "unat h + j \<le> Suc (length (history d))"
    and "fetch_batch W peer k h = Ok (map fst (run E d h c), map snd (run E d h j))"
proof -
  let ?n = "node_at k h"
  from assms(3) have inv: "node_inv E W ?n" and d: "db (nd_storage ?n) = d"
    and ans: "\<And>a n'. get_lz4_blocks E W h 500000 ?n = Some (Ok a, n') \<Longrightarrow>
      p_lz4 peer k h 500000 = Answer a"
    by (auto simp: serves_def)
  have hh: "unat (highest_height (nd_storage ?n)) = length (history d)"
    using highest_height_eq [OF node_invD(2) [OF inv]] d by simp
  have "unat h \<le> unat (highest_height (nd_storage ?n))"
    "unat (highest_height (nd_storage ?n)) < 2 ^ 63 - 1" using hh assms(4,6) by simp_all
  from lz4_batch [OF assms(1) inv assms(5) this, of "min 500000 10000000"] obtain c j n'
    where c: "1 \<le> c" "c \<le> j" "unat h + j \<le> Suc (length (history d))"
      and "lz4_loop E (min 500000 10000000) h (0, [], []) ?n =
        Some (Ok (Some (map fst (run E d h c), map snd (run E d h j))), n')"
    unfolding d hh by metis
  then have "get_lz4_blocks E W h 500000 ?n =
      Some (Ok (Some (lz4_text W (map fst (run E d h c), map snd (run E d h j)))), n')"
    by (simp add: get_lz4_blocks_def)
  from ans [OF this] assms(2) c that [of c j] show thesis
    by (simp add: fetch_batch_def lz4_text_def batch_codec_ok_def)
qed

lemma sync_loop_served:
  assumes "node_ext_ok E W" and "batch_codec_ok W" and "serves E W d node_at peer"
    and "length (history d) < 2 ^ 63 - 1" and "tables_inv E d" and "unat their = length (history d)"
  shows "1 \<le> unat h \<Longrightarrow> unat h + m = Suc (length (history d)) \<Longrightarrow>
    sync_loop E W peer their k h n s = Some (apply_all (apply_resolved E) (run E d h m) n s)"
proof (induction m arbitrary: h k n s rule: less_induct)
  case (less m)
  have codec: "codec_ok E" using assms(1) by (rule node_ext_okD)
  show ?case
  proof (cases "m = 0")
    case True
    then have "\<not> h \<le> their" using less.prems(2) assms(6) by (simp add: word_le_nat_alt)
    with True show ?thesis by (subst sync_loop.simps) simp
  next
    case False
    then have le: "h \<le> their" and hd: "unat h \<le> length (history d)"
      using less.prems(2) assms(6) by (simp_all add: word_le_nat_alt)
    obtain c j where cj: "1 \<le> c" "c \<le> j" "unat h + j \<le> Suc (length (history d))"
      and fetch: "fetch_batch W peer k h = Ok (map fst (run E d h c), map snd (run E d h j))"
      by (rule fetch_from_server [OF assms(1-4) less.prems(1) hd])
    have small: "length (history d) < 2 ^ 64 - 1" using assms(4) by simp
    have cle: "unat h + c \<le> Suc (length (history d))" using cj by simp
    obtain r1 s1 where r1: "apply_all (apply_resolved E) (run E d h c) n s = (r1, s1)" by fastforce
    note batch = apply_batch_run [OF codec assms(5) less.prems(1) cle small, of h n s]
    note run1 = fetch zip_run [OF cj(2), of E d h] le batch r1
    let ?h = "h + of_nat c :: u64"
    have "unat (of_nat c :: u64) = c" using cle small by (intro unat_of_nat_small) simp
    moreover from this have h': "unat ?h = unat h + c"
      using cle small by (subst unat_add_small) simp_all
    ultimately have add: "checked_add h (of_nat c) = Ok ?h" by (simp add: checked_add_Ok_iff)
    have m: "m = c + (m - c)" using less.prems(2) cle by simp
    have IH: "sync_loop E W peer their (Suc k) ?h n' s' =
        Some (apply_all (apply_resolved E) (run E d ?h (m - c)) n' s')" for n' s'
      by (rule less.IH) (use cj(1) False less.prems h' m in simp_all)
    have "run E d h m = run E d h c @ run E d ?h (m - c)"
      using m by (metis run_append)
    then show ?thesis
      using run1 add IH by (subst sync_loop.simps) (cases r1; simp add: apply_all_append)
  qed
qed

text \<open>The blocks above a height, each with its proof, and the chain that has them added.\<close>

lemma missing_stored:
  assumes "codec_ok E" and "tables_inv E d" and "length (history d) < 2 ^ 63 - 1"
    and "unat h + m = Suc (length (history d))" and "1 \<le> unat h"
  obtains bs ps where "map Some bs = map (\<lambda>i. block_at E d (h + of_nat i)) [0..<m]"
    and "map Some ps = map (\<lambda>i. proof_at E d (h + of_nat i)) [0..<m]"
proof -
  have stored: "\<exists>b p. block_at E d (h + of_nat i) = Some b \<and> proof_at E d (h + of_nat i) = Some p"
    if "i < m" for i
  proof -
    have "unat (of_nat i :: u64) = i" using that assms(3,4) by (intro unat_of_nat_small) simp
    then have "unat (h + of_nat i) = unat h + i"
      using that assms(3,4) by (subst unat_add_small) simp_all
    moreover have "unat h + i \<le> length (history d)" using that assms(4) by linarith
    ultimately obtain b where b: "block_at E d (h + of_nat i) = Some b"
      using block_at_ex [OF assms(1,2), of "h + of_nat i"] assms(5) by auto
    with block_proof_ex [OF assms(1,2) b] show ?thesis by blast
  qed
  show thesis
    by (rule that [of "map (\<lambda>i. the (block_at E d (h + of_nat i))) [0..<m]"
          "map (\<lambda>i. the (proof_at E d (h + of_nat i))) [0..<m]"]) (use stored in auto)
qed

lemma extends_same_blocks:
  assumes "codec_ok E" and "tables_inv E d" and "length (history d) < 2 ^ 63 - 1"
    and "map Some bs = map (\<lambda>i. block_at E d (h0 + of_nat i)) [0..<m]"
    and "unat h0 = Suc (tip_height s)" and "unat h0 + m = Suc (length (history d))"
    and "extends tip_height (\<lambda>s. block_at E (db s)) bs s s'"
    and "tip_height s < unat h" and "unat h \<le> length (history d)"
  shows "block_at E (db s') h = block_at E d h"
proof -
  from assms(8,9) obtain b where b: "block_at E d h = Some b"
    using block_at_ex [OF assms(1,2), of h] by auto
  define i where "i = unat h - unat h0"
  have i: "i < m" using assms(5,6,8,9) unfolding i_def by linarith
  have "unat (of_nat i :: u64) = i" using i assms(3,6) by (intro unat_of_nat_small) simp
  then have "h0 + of_nat i = h"
    using assms(3,5,8,9) by (simp add: word_unat_eq_iff i_def unat_add_small)
  moreover from assms(4) have "map Some bs ! i = block_at E d (h0 + of_nat i)" using i by simp
  moreover have len: "length bs = m" using arg_cong [OF assms(4), of length] by simp
  ultimately have "bs ! i = b" using i b by simp
  with i len have "b \<in> set bs" by auto
  with assms(7) have "block_at E (db s') (height_of b) = Some b" unfolding extends_def by blast
  with b block_at_height [OF assms(1,2) b] show ?thesis by simp
qed

section \<open>Properties\<close>

text \<open>C17: A malicious peer can only add valid blocks.  Whatever a peer answers, after an attempt to
  synchronise, by either protocol and with whatever result, the storage invariant holds and
  every block stored before is still there; and an attempt that returns a count has added exactly
  that many blocks at the end of the chain, each of which went through \<^verbatim>\<open>apply_block\<close>.\<close>

theorem sync_safety:
  assumes "ext_ok E" and "storage_inv E s" and "attempt_blksync E W env peer s = Some (r, s')"
  shows "storage_inv E s' \<and>
    (\<forall>h b. block_at E (db s) h = Some b \<longrightarrow> block_at E (db s') h = Some b) \<and>
    (\<forall>m. r = Ok m \<longrightarrow> (\<exists>xs. m = length xs \<and> grown (apply_resolved E) xs s s' \<and>
       extends tip_height (\<lambda>s. block_at E (db s)) (map fst xs) s s'))"
proof -
  have ran: "sync_ran E 0 s r s'" by (rule attempt_blksync_ran [OF assms(3)])
  have "\<exists>xs. m = length xs \<and> grown (apply_resolved E) xs s s' \<and>
      extends tip_height (\<lambda>s. block_at E (db s)) (map fst xs) s s'" if "r = Ok m" for m
    using ran that sync.grown_extends [of E s] assms(1,2) by (auto simp: sync_ran_def)
  with sync_ran_keeps [OF ran assms(1,2)] show ?thesis by blast
qed

text \<open>C18: With a node that serves its own longer chain, a synchronisation returns, and its result and the
  storage it leaves are those of adding the peer's blocks from the first missing one to its last,
  each with its proof, one after the other until one is refused: the batching, compression and
  size limits of the two sides lose nothing, repeat nothing and reorder nothing.  If none is
  refused, the count is the number of missing blocks and the storage has the peer's chain above
  its old tip.\<close>

theorem honest_sync:
  assumes "node_ext_ok E W" and "batch_codec_ok W" and "serves E W d node_at peer"
    and "length (history d) < 2 ^ 63 - 1" and "tables_inv E d" and "storage_inv E s"
    and "\<not> old_blksync env" and "tip_height s < length (history d)"
    and "m = length (history d) - tip_height s"
  shows "(\<exists>bs ps. map Some bs = map (\<lambda>i. block_at E d (highest_height s + 1 + of_nat i)) [0..<m] \<and>
       map Some ps = map (\<lambda>i. proof_at E d (highest_height s + 1 + of_nat i)) [0..<m] \<and>
       attempt_blksync E W env peer s = Some (apply_all (apply_resolved E) (zip bs ps) 0 s)) \<and>
    (\<forall>n s'. attempt_blksync E W env peer s = Some (Ok n, s') \<longrightarrow>
       n = m \<and> tip_height s' = length (history d) \<and>
       (\<forall>h. tip_height s < unat h \<and> unat h \<le> length (history d) \<longrightarrow>
          block_at E (db s') h = block_at E d h))"
proof -
  note ext = node_ext_okD [OF assms(1)]
  have inv: "ext_ok E \<and> storage_inv E s" using ext(1) assms(6) by simp
  have my: "unat (highest_height s) = tip_height s"
    using highest_height_eq [of E s] assms(6) by (simp add: storage_inv_def tip_height_def)
  from assms(3) obtain summ where summ: "p_summary peer = Answer summ"
    and their: "unat (ss_height summ) = length (history d)" by (auto simp: serves_def)
  define h0 where "h0 = highest_height s + 1"
  have h0: "unat h0 = Suc (tip_height s)"
    unfolding h0_def using my assms(4,8) by (subst unat_u64_Suc) simp_all
  then have add: "checked_add (highest_height s) 1 = Ok h0" by (simp add: checked_add_Ok_iff my)
  have sum: "unat h0 + m = Suc (length (history d))" and pos: "1 \<le> unat h0"
    using assms(8,9) h0 by simp_all
  from missing_stored [OF ext(2) assms(5,4) sum pos] obtain bs ps
    where bs: "map Some bs = map (\<lambda>i. block_at E d (h0 + of_nat i)) [0..<m]"
      and ps: "map Some ps = map (\<lambda>i. proof_at E d (h0 + of_nat i)) [0..<m]" by blast
  have run: "run E d h0 m = zip bs ps" by (rule run_zip [OF bs ps])
  have "attempt_blksync E W env peer s = Some (apply_all (apply_resolved E) (zip bs ps) 0 s)"
    using assms(7,8) summ their my add sync_loop_served [OF assms(1-5) their pos sum, of 0 0 s] run
    by (simp add: attempt_blksync_def their_height_def word_le_nat_alt)
  moreover have "n = m \<and> tip_height s' = length (history d) \<and>
      (\<forall>h. tip_height s < unat h \<and> unat h \<le> length (history d) \<longrightarrow>
         block_at E (db s') h = block_at E d h)"
    if ok: "apply_all (apply_resolved E) (zip bs ps) 0 s = (Ok n, s')" for n s'
  proof (intro conjI allI impI)
    have len: "length bs = m" "length ps = m"
      using arg_cong [OF bs, of length] arg_cong [OF ps, of length] by simp_all
    from sync.apply_all_Ok [OF inv ok] len have n: "n = m"
      and ext': "extends tip_height (\<lambda>s. block_at E (db s)) bs s s'" by simp_all
    then show "n = m" and "tip_height s' = length (history d)"
      using assms(8,9) len by (simp_all add: extends_def)
    fix h :: u64 assume "tip_height s < unat h \<and> unat h \<le> length (history d)"
    then show "block_at E (db s') h = block_at E d h"
      using extends_same_blocks [OF ext(2) assms(5,4) bs h0 sum ext'] by blast
  qed
  ultimately show ?thesis using bs ps unfolding h0_def by auto
qed

text \<open>C19: A synchronisation by batches returns, whatever else the peer answers, if no batch it sends is
  empty.\<close>

theorem sync_terminates:
  assumes "\<forall>k h bs ps. fetch_batch W peer k h = Ok (bs, ps) \<longrightarrow> bs \<noteq> [] \<and> length bs < 2 ^ 64"
  shows "\<exists>y. attempt_blksync E W env peer s = Some y"
proof -
  have loop: "\<exists>y. sync_loop E W peer their k h n s = Some y" for their k h n s
  proof (induction "2 ^ 64 - unat h" arbitrary: k h n s rule: less_induct)
    case less
    show ?case
    proof (cases "h \<le> their")
      case False
      then show ?thesis by (subst sync_loop.simps) simp
    next
      case True
      have "\<exists>y. sync_loop E W peer their (Suc k) h' n' s' = Some y"
        if "fetch_batch W peer k h = Ok (bs, ps)" "checked_add h (of_nat (length bs)) = Ok h'"
        for bs ps h' n' s'
      proof (rule less)
        from assms that(1) have "0 < length bs" "length bs < 2 ^ 64" by auto
        then have "0 < unat (of_nat (length bs) :: u64)" by (subst unat_of_nat_small) simp_all
        with that(2) unat_bound [of h'] show "2 ^ 64 - unat h' < 2 ^ 64 - unat h"
          by (simp add: checked_add_Ok_iff)
      qed
      with True show ?thesis
        by (subst sync_loop.simps) (auto split: res.splits prod.splits)
    qed
  qed
  show ?thesis using loop by (auto simp: attempt_blksync_def Let_def split: res.splits)
qed

text \<open>C20: One malicious peer can hold the synchronisation for ever: a peer that claims a higher chain and
  answers every request with an empty batch is asked again and again, without an error, a
  delay or a limit.\<close>

theorem sync_stuck_on_empty_batches:
  assumes "\<not> old_blksync env" and "their_height peer = Ok their" and "highest_height s < their"
    and "\<forall>k. \<exists>ps. fetch_batch W peer k (highest_height s + 1) = Ok ([], ps)"
  shows "attempt_blksync E W env peer s = None"
proof -
  let ?h = "highest_height s + 1"
  have "unat (highest_height s) < unat their" using assms(3) by (simp add: word_less_nat_alt)
  with unat_bound [of their] have "unat (highest_height s) < 2 ^ 64 - 1" by simp
  then have suc: "unat ?h = Suc (unat (highest_height s))" by (rule unat_u64_Suc)
  then have le: "?h \<le> their" and add: "checked_add (highest_height s) 1 = Ok ?h"
    using assms(3) by (simp_all add: word_le_nat_alt word_less_nat_alt checked_add_Ok_iff)
  have zero: "checked_add ?h 0 = Ok ?h" by (simp add: checked_add_Ok_iff)
  have stuck: "sync_loop E W peer their k ?h n s = None" for k n
  proof (rule ccontr)
    assume "sync_loop E W peer their k ?h n s \<noteq> None"
    then obtain y where y: "sync_loop E W peer their k ?h n s = Some y" by blast
    have "W = W \<longrightarrow> peer = peer \<longrightarrow> their = their \<longrightarrow> ?h = ?h \<longrightarrow> False"
    proof (rule sync_loop.raw_induct [where P =
        "\<lambda>E' W' peer' their' k' h' n' s' y. W' = W \<longrightarrow> peer' = peer \<longrightarrow> their' = their \<longrightarrow> h' = ?h \<longrightarrow> False",
        OF _ y], intro impI, goal_cases)
      case (1 loop E' W' peer' their' k' h' n' s' y')
      from assms(4) obtain ps where "fetch_batch W peer k' ?h = Ok ([], ps)" by blast
      with 1(2-) le zero have "loop E' W peer their (Suc k') ?h n' s' = Some y'" by simp
      from 1(1) [OF this] show ?case by simp
    qed
    then show False by simp
  qed
  show ?thesis
    using assms(1-3) add stuck by (simp add: attempt_blksync_def Let_def not_le [symmetric])
qed

section \<open>Witnesses\<close>

definition demo_summary :: "u64 \<Rightarrow> state_summary" where
  "demo_summary h =
     \<lparr>ss_netid = Custom02, ss_height = h, ss_header = demo_header h 2, ss_proof = demo_cproof h\<rparr>"

text \<open>A peer that claims height \<open>h\<close> and always sends the same batch.\<close>

definition demo_peer :: "u64 \<Rightarrow> (u64 \<Rightarrow> block list \<times> cproof list) \<Rightarrow> peer" where
  "demo_peer h batch = \<lparr>p_summary = Answer (demo_summary h),
     p_lz4 = (\<lambda>k height limit. Answer (Some (lz4_text demo_wire (batch height)))),
     p_full_block = (\<lambda>height. Answer (Some (demo_block height 2, demo_cproof height)))\<rparr>"

lemma demo_fetch: "fetch_batch demo_wire (demo_peer h batch) k height = Ok (batch height)"
  using demo_wire_ok(1)
  by (cases "batch height") (simp add: fetch_batch_def demo_peer_def lz4_text_def batch_codec_ok_def)

lemma demo_their: "their_height (demo_peer h batch) = Ok h"
  by (simp add: their_height_def demo_peer_def demo_summary_def)

lemma demo_legacy_sync:
  "attempt_blksync demo demo_wire \<lparr>old_blksync = True, blksync_batch = None\<rparr>
     (demo_peer 1 (\<lambda>_. ([], []))) demo_storage = Some (Ok 1, demo_storage1)"
proof -
  have "apply_resolved demo (demo_block 1 2) (demo_cproof 1) demo_storage = (Ok (), demo_storage1)"
    by (simp add: apply_resolved_simps demo_apply1)
  moreover have "sync_heights 0 1 1000 = [1]" by (simp add: sync_heights_def)
  moreover have "fetch_full_block (demo_peer 1 (\<lambda>_. ([], []))) 1 = Ok (demo_block 1 2, demo_cproof 1)"
    by (simp add: fetch_full_block_def demo_peer_def) (simp add: demo_block_def demo_header_def)
  ultimately show ?thesis
    by (simp add: attempt_blksync_def attempt_blksync_legacy_def demo_their demo_highest)
qed

theorem sync_safety_witness:
  "storage_inv demo demo_storage1 \<and>
    (\<exists>xs :: (block \<times> cproof) list. 1 = length xs \<and> extends tip_height (\<lambda>s. block_at demo (db s)) (map fst xs) demo_storage demo_storage1)"
  using sync_safety [OF demo_ext_ok demo_storage_inv demo_legacy_sync]
  by (simp only: res.inject simp_thms) blast

text \<open>A peer that serves the one block of the demo chain.\<close>

definition demo_server :: peer where
  "demo_server = \<lparr>p_summary = Answer (demo_summary 1),
     p_lz4 = (\<lambda>k h limit. case get_lz4_blocks demo demo_wire h limit demo_node of
        Some (Ok ans, n) \<Rightarrow> Answer ans | _ \<Rightarrow> Failed),
     p_full_block = (\<lambda>h. Failed)\<rparr>"

lemma demo_history1: "length (history (db demo_storage1)) = 1"
  using highest_height_eq [of demo demo_storage1] demo_storage1_inv demo_highest1
  by (simp add: storage_inv_def)

lemma demo_serves: "serves demo demo_wire (db demo_storage1) (\<lambda>k h. demo_node) demo_server"
  using demo_node_inv demo_history1 by (simp add: serves_def demo_server_def demo_summary_def)

text \<open>Here the block is accepted.\<close>

lemma demo_proof_at1: "proof_at demo (db demo_storage1) 1 = Some (demo_cproof 1)"
  using st.put_reads_back [OF _ demo_apply1] demo_storage_inv demo_ext_ok
  by (simp add: demo_block_def demo_header_def)

theorem honest_sync_witness:
  "attempt_blksync demo demo_wire \<lparr>old_blksync = False, blksync_batch = None\<rparr> demo_server
      demo_storage = Some (Ok 1, demo_storage1)"
proof -
  have tables: "tables_inv demo (db demo_storage1)" using demo_storage1_inv by (simp add: storage_inv_def)
  have applied: "apply_resolved demo (demo_block 1 2) (demo_cproof 1) demo_storage = (Ok (), demo_storage1)"
    by (simp add: apply_resolved_simps demo_apply1)
  have "tip_height demo_storage = 0" by (simp add: tip_height_def demo_history)
  then have sync: "\<exists>bs ps. map Some bs = map (\<lambda>i. block_at demo (db demo_storage1)
        (highest_height demo_storage + 1 + of_nat i)) [0..<1] \<and>
      map Some ps = map (\<lambda>i. proof_at demo (db demo_storage1) (highest_height demo_storage + 1 + of_nat i)) [0..<1] \<and>
      attempt_blksync demo demo_wire \<lparr>old_blksync = False, blksync_batch = None\<rparr> demo_server demo_storage =
        Some (apply_all (apply_resolved demo) (zip bs ps) 0 demo_storage)"
    using honest_sync [OF demo_node_ext demo_wire_ok(1) demo_serves _ tables demo_storage_inv,
        of "\<lparr>old_blksync = False, blksync_batch = None\<rparr>" 1, THEN conjunct1] demo_history1
    by (simp del: demo_fields)
  have one: "map Some xs = map f [0..<1] \<longleftrightarrow> map Some xs = [f 0]" for xs :: "'z list" and f
    by simp
  from sync [unfolded one] obtain bs ps
    where bs: "map Some bs = [block_at demo (db demo_storage1) (highest_height demo_storage + 1 + of_nat 0)]"
    and ps: "map Some ps = [proof_at demo (db demo_storage1) (highest_height demo_storage + 1 + of_nat 0)]"
    and res: "attempt_blksync demo demo_wire \<lparr>old_blksync = False, blksync_batch = None\<rparr> demo_server demo_storage =
        Some (apply_all (apply_resolved demo) (zip bs ps) 0 demo_storage)"
    by (elim exE conjE)
  from bs ps have "bs = [demo_block 1 2]" and "ps = [demo_cproof 1]"
    by (auto simp: demo_highest demo_block_at1 demo_proof_at1)
  with res applied show ?thesis by (simp del: demo_fields)
qed

theorem sync_terminates_witness:
  "\<exists>y. attempt_blksync demo demo_wire \<lparr>old_blksync = False, blksync_batch = None\<rparr>
     (demo_peer 3 (\<lambda>h. ([demo_block h 2], [demo_cproof h]))) demo_storage = Some y"
  by (rule sync_terminates) (auto simp: demo_fetch)

theorem sync_stuck_on_empty_batches_witness:
  "attempt_blksync demo demo_wire \<lparr>old_blksync = False, blksync_batch = None\<rparr>
     (demo_peer 3 (\<lambda>_. ([], []))) demo_storage = None"
  by (rule sync_stuck_on_empty_batches [OF _ demo_their])
    (simp_all add: demo_fetch demo_highest)

end
