(* ===== verification/Waiter.thy ===== *)
theory Waiter
  imports Storage_Props
begin

text \<open>
  \<^verbatim>\<open>Storage::get_state_or_wait\<close> (\<^verbatim>\<open>src/storage/storage.rs\<close>, lines 150-159): any number of
  tasks that wait for a height, interleaved with the writer.  A waiter registers a listener
  on \<^verbatim>\<open>new_block_notify\<close>, reads, and sleeps on the listener if the block is missing; the
  writer commits a block and notifies later, in \<^verbatim>\<open>apply_block\<close>.  Between any two of these
  steps any other task may run.  \<^verbatim>\<open>event_listener::Event\<close> is a parameter, the record
  \<open>event_ops\<close>; a listener is named by the task that holds it.
\<close>

section \<open>The system\<close>

record 'e event_ops =
  listen :: "nat \<Rightarrow> 'e \<Rightarrow> 'e"
  notify_all :: "'e \<Rightarrow> 'e"
  is_registered :: "nat \<Rightarrow> 'e \<Rightarrow> bool"
  is_notified :: "nat \<Rightarrow> 'e \<Rightarrow> bool"

text \<open>
  What the event promises: a new listener is registered, notifying all reaches every
  registered listener, and listening does not disturb the listeners of others.
\<close>

definition event_ok :: "('e, 'y) event_ops_scheme \<Rightarrow> bool" where
  "event_ok V \<longleftrightarrow>
     (\<forall>i e. is_registered V i (listen V i e)) \<and>
     (\<forall>i e. is_registered V i e \<longrightarrow> is_notified V i (notify_all V e)) \<and>
     (\<forall>i e. is_registered V i e \<longrightarrow> is_registered V i (notify_all V e)) \<and>
     (\<forall>i j e. i \<noteq> j \<longrightarrow> is_registered V j (listen V i e) = is_registered V j e) \<and>
     (\<forall>i j e. i \<noteq> j \<longrightarrow> is_notified V j (listen V i e) = is_notified V j e)"

datatype 's wait_pc = Listening | Checking | Awaiting | Returned 's

datatype write_pc = WriterIdle | Announcing

record ('f, 's, 'u, 'e) wait_sys =
  ws_storage :: "('f, 'u) storage"
  ws_event :: 'e
  ws_pc :: "nat \<Rightarrow> 's wait_pc"
  ws_writer :: write_pc

text \<open>One step of task \<open>i\<close> in the loop; \<open>None\<close> when it cannot move.\<close>

definition get_state_or_wait ::
    "('f, 's, 'u, 'k, 'x) ext_scheme \<Rightarrow> ('e, 'y) event_ops_scheme \<Rightarrow> (nat \<Rightarrow> u64) \<Rightarrow> nat \<Rightarrow>
     ('f, 's, 'u, 'e) wait_sys \<Rightarrow> ('f, 's, 'u, 'e) wait_sys option" where
  "get_state_or_wait E V height i w =
     (case ws_pc w i of
        Listening \<Rightarrow>
          Some (w\<lparr>ws_event := listen V i (ws_event w), ws_pc := (ws_pc w)(i := Checking)\<rparr>)
      | Checking \<Rightarrow>
          (case get_state E (height i) (ws_storage w) of
             (Ok (Some val), s) \<Rightarrow> Some (w\<lparr>ws_storage := s, ws_pc := (ws_pc w)(i := Returned val)\<rparr>)
           | (Ok None, s) \<Rightarrow> Some (w\<lparr>ws_storage := s, ws_pc := (ws_pc w)(i := Awaiting)\<rparr>)
           | (_, s) \<Rightarrow> None)
      | Awaiting \<Rightarrow>
          if is_notified V i (ws_event w) then Some (w\<lparr>ws_pc := (ws_pc w)(i := Listening)\<rparr>) else None
      | Returned val \<Rightarrow> None)"

inductive wait_step ::
    "('f, 's, 'u, 'k, 'x) ext_scheme \<Rightarrow> ('e, 'y) event_ops_scheme \<Rightarrow> (nat \<Rightarrow> u64) \<Rightarrow>
     ('f, 's, 'u, 'e) wait_sys \<Rightarrow> ('f, 's, 'u, 'e) wait_sys \<Rightarrow> bool" for E V height where
  waiter: "get_state_or_wait E V height i w = Some w' \<Longrightarrow> wait_step E V height w w'"
| commit: "ws_writer w = WriterIdle \<Longrightarrow> tip_state E (ws_storage w) = Ok hs \<Longrightarrow>
    check_block E b p hs = Ok () \<Longrightarrow>
    stf_apply_block E b hs (forest (ws_storage w)) = (Ok st, f) \<Longrightarrow>
    store_block E b p (db (ws_storage w)) = Ok d \<Longrightarrow>
    wait_step E V height w
      (w\<lparr>ws_storage := committed E f d (ws_storage w), ws_writer := Announcing\<rparr>)"
| announce: "ws_writer w = Announcing \<Longrightarrow>
    announce E (tip_state E (ws_storage w)) (ws_storage w) = (Ok (), s) \<Longrightarrow>
    wait_step E V height w
      (w\<lparr>ws_storage := s, ws_event := notify_all V (ws_event w), ws_writer := WriterIdle\<rparr>)"
| refused: "ws_writer w = WriterIdle \<Longrightarrow> apply_block E b p (ws_storage w) = (Err e, s) \<Longrightarrow>
    wait_step E V height w (w\<lparr>ws_storage := s\<rparr>)"

inductive wait_reach ::
    "('f, 's, 'u, 'k, 'x) ext_scheme \<Rightarrow> ('e, 'y) event_ops_scheme \<Rightarrow> (nat \<Rightarrow> u64) \<Rightarrow>
     ('f, 's, 'u, 'e) wait_sys \<Rightarrow> bool" for E V height where
  start: "storage_reach E s \<Longrightarrow> wait_reach E V height
    \<lparr>ws_storage = s, ws_event = ev, ws_pc = (\<lambda>_. Listening), ws_writer = WriterIdle\<rparr>"
| step: "wait_reach E V height w \<Longrightarrow> wait_step E V height w w' \<Longrightarrow> wait_reach E V height w'"

section \<open>The invariant\<close>

text \<open>
  A task that has left \<open>Listening\<close> holds a registered listener.  A task asleep on a
  listener nobody has notified has nothing to read, unless a notification is on its way.
\<close>

definition wait_inv ::
    "('f, 's, 'u, 'k, 'x) ext_scheme \<Rightarrow> ('e, 'y) event_ops_scheme \<Rightarrow> (nat \<Rightarrow> u64) \<Rightarrow>
     ('f, 's, 'u, 'e) wait_sys \<Rightarrow> bool" where
  "wait_inv E V height w \<longleftrightarrow>
     storage_inv E (ws_storage w) \<and>
     (\<forall>i. ws_pc w i = Checking \<or> ws_pc w i = Awaiting \<longrightarrow> is_registered V i (ws_event w)) \<and>
     (\<forall>i. ws_pc w i = Awaiting \<and> \<not> is_notified V i (ws_event w) \<and> ws_writer w = WriterIdle \<longrightarrow>
        block_at E (db (ws_storage w)) (height i) = None)"

lemma state_at_None:
  "state_at E s h = Ok None \<Longrightarrow> block_at E (db s) h = None"
  by (auto simp: state_at_def bind_res_Ok_iff split: if_splits option.splits)

lemma committed_inv:
  assumes "ext_ok E" and "storage_inv E s" and "tip_state E s = Ok hs"
    and "check_block E b p hs = Ok ()" and "stf_apply_block E b hs (forest s) = (Ok st, f)"
    and "store_block E b p (db s) = Ok d"
  shows "storage_inv E (committed E f d s)"
proof -
  from assms obtain c where "storage_inv E ((committed E f d s)\<lparr>old_cache := c\<rparr>)"
    and len: "unat (height_of b) = Suc (length (history (db s)))"
    by (rule apply_block_commit)
  moreover have "coherent (block_at E d) (old_cache s)"
  proof (rule coherent_mono)
    show "coherent (block_at E (db s)) (old_cache s)" using assms(2) by (simp add: storage_inv_def)
    fix h c assume old: "block_at E (db s) h = Some c"
    have codec: "codec_ok E" and inv: "tables_inv E (db s)"
      using assms(1,2) by (simp_all add: ext_okD storage_inv_def)
    from old block_at_ex [OF codec inv, of h] len show "block_at E d h = Some c"
      by (auto simp: store_block_lookup(1) [OF codec inv assms(6) len])
  qed
  ultimately show ?thesis by (simp add: storage_inv_def committed_def)
qed

lemma announce_same:
  "announce E tip s = (Ok (), s') \<Longrightarrow>
   db s' = db s \<and> old_cache s' = old_cache s \<and> genesis s' = genesis s \<and> forest s' = forest s"
  by (cases tip) (auto simp: announce_def)

text \<open>Task \<open>i\<close> moves to \<open>q\<close>; the tables and the listeners of the others stay as they are.\<close>

lemma wait_inv_move:
  assumes inv: "wait_inv E V height w" and s: "storage_inv E s" "db s = db (ws_storage w)"
    and others: "\<And>j. j \<noteq> i \<Longrightarrow> is_registered V j e = is_registered V j (ws_event w) \<and>
      is_notified V j e = is_notified V j (ws_event w)"
    and reg: "q = Checking \<or> q = Awaiting \<Longrightarrow> is_registered V i e"
    and asleep: "q = Awaiting \<Longrightarrow> block_at E (db s) (height i) = None"
  shows "wait_inv E V height (w\<lparr>ws_storage := s, ws_event := e, ws_pc := (ws_pc w)(i := q)\<rparr>)"
    (is "wait_inv E V height ?w")
  unfolding wait_inv_def
proof (intro conjI allI impI)
  show "storage_inv E (ws_storage ?w)" using s by simp
next
  fix j assume "ws_pc ?w j = Checking \<or> ws_pc ?w j = Awaiting"
  with inv others [of j] reg show "is_registered V j (ws_event ?w)"
    by (cases "j = i") (auto simp: wait_inv_def)
next
  fix j assume "ws_pc ?w j = Awaiting \<and> \<not> is_notified V j (ws_event ?w) \<and> ws_writer ?w = WriterIdle"
  with inv s(2) others [of j] asleep show "block_at E (db (ws_storage ?w)) (height j) = None"
    by (cases "j = i") (simp_all add: wait_inv_def)
qed

lemma waiter_keeps_inv:
  assumes "get_state_or_wait E V height i w = Some w'"
    and "ext_ok E" and "event_ok V" and "wait_inv E V height w"
  shows "wait_inv E V height w'"
proof -
  have sinv: "storage_inv E (ws_storage w)" using assms(4) by (simp add: wait_inv_def)
  show ?thesis
  proof (cases "ws_pc w i")
    case Listening
    with assms(1) have "w' = w\<lparr>ws_storage := ws_storage w, ws_event := listen V i (ws_event w),
        ws_pc := (ws_pc w)(i := Checking)\<rparr>" by (simp add: get_state_or_wait_def)
    then show ?thesis
      using wait_inv_move [OF assms(4) sinv refl, of i "listen V i (ws_event w)" Checking] assms(3)
      by (simp add: event_ok_def)
  next
    case Checking
    with assms(4) have reg: "is_registered V i (ws_event w)" by (simp add: wait_inv_def)
    from get_state_spec [OF assms(2) sinv, of "height i"] obtain c
      where c: "get_state E (height i) (ws_storage w) =
          (state_at E (ws_storage w) (height i), (ws_storage w)\<lparr>old_cache := c\<rparr>)"
        and coh: "coherent (block_at E (db (ws_storage w))) c" by blast
    from c Checking assms(1) obtain q where w': "w' = w\<lparr>ws_storage := (ws_storage w)\<lparr>old_cache := c\<rparr>,
        ws_event := ws_event w, ws_pc := (ws_pc w)(i := q)\<rparr>"
      and "q = Awaiting \<longrightarrow> state_at E (ws_storage w) (height i) = Ok None"
      by (auto simp: get_state_or_wait_def split: res.splits option.splits)
    then show ?thesis unfolding w'
      using wait_inv_move [OF assms(4) storage_inv_cache [OF sinv coh], of i "ws_event w" q] reg
      by (simp add: state_at_None)
  next
    case Awaiting
    with assms(1) have "w' = w\<lparr>ws_storage := ws_storage w, ws_event := ws_event w,
        ws_pc := (ws_pc w)(i := Listening)\<rparr>"
      by (simp add: get_state_or_wait_def split: if_splits)
    then show ?thesis
      using wait_inv_move [OF assms(4) sinv refl, of i "ws_event w" Listening] by simp
  next
    case (Returned v)
    with assms(1) show ?thesis by (simp add: get_state_or_wait_def)
  qed
qed

lemma wait_step_inv:
  assumes "wait_step E V height w w'" and "ext_ok E" and "event_ok V" and "wait_inv E V height w"
  shows "wait_inv E V height w'"
  using assms
proof (induction rule: wait_step.induct)
  case (waiter i w w')
  then show ?case by (rule waiter_keeps_inv)
next
  case (commit w hs b p st f d)
  with committed_inv [of E "ws_storage w" hs b p st f d] show ?case
    by (auto simp: wait_inv_def)
next
  case (announce w s)
  with announce_same [OF announce.hyps(2)] show ?case
    by (auto simp: wait_inv_def storage_inv_def event_ok_def)
next
  case (refused w b p e s)
  with st.put_inv [of E "ws_storage w" b p "Err e" s] st.put_Err [of E "ws_storage w" b p e s]
  show ?case by (simp add: wait_inv_def)
qed

lemma wait_reach_inv:
  assumes "wait_reach E V height w" and "ext_ok E" and "event_ok V"
  shows "wait_inv E V height w"
  using assms
proof (induction rule: wait_reach.induct)
  case (start s ev)
  then show ?case by (simp add: wait_inv_def storage_reach_inv)
next
  case (step w w')
  then show ?case by (blast intro: wait_step_inv)
qed

section \<open>Properties\<close>

text \<open>C27: No lost wakeup.  In every reachable state of writer and waiters, a task that sleeps on a
  listener which has not been notified is waiting for a block that is not stored, unless the
  writer has committed and is about to notify.\<close>

theorem no_lost_wakeup:
  assumes "wait_reach E V height w" and "ext_ok E" and "event_ok V"
    and "ws_pc w i = Awaiting" and "\<not> is_notified V i (ws_event w)"
    and "ws_writer w = WriterIdle"
  shows "block_at E (db (ws_storage w)) (height i) = None"
  using wait_reach_inv [OF assms(1-3)] assms(4-6) by (simp add: wait_inv_def)

text \<open>Steps of one task alone.\<close>

fun waiter_run ::
    "('f, 's, 'u, 'k, 'x) ext_scheme \<Rightarrow> ('e, 'y) event_ops_scheme \<Rightarrow> (nat \<Rightarrow> u64) \<Rightarrow> nat \<Rightarrow> nat \<Rightarrow>
     ('f, 's, 'u, 'e) wait_sys \<Rightarrow> ('f, 's, 'u, 'e) wait_sys option" where
  "waiter_run E V height i 0 w = Some w"
| "waiter_run E V height i (Suc n) w =
     (case get_state_or_wait E V height i w of
        None \<Rightarrow> None
      | Some w' \<Rightarrow> waiter_run E V height i n w')"

lemma waiter_run_check:
  assumes "ext_ok E" and "storage_inv E (ws_storage w)"
    and "state_at E (ws_storage w) (height i) = Ok (Some v)"
    and "ws_pc w i = Checking"
  shows "\<exists>w'. waiter_run E V height i 1 w = Some w' \<and> ws_pc w' i = Returned v"
proof -
  from get_state_spec [OF assms(1,2), of "height i"] assms(3) obtain c
    where "get_state E (height i) (ws_storage w) = (Ok (Some v), (ws_storage w)\<lparr>old_cache := c\<rparr>)"
    by auto
  with assms(4) show ?thesis by (simp add: get_state_or_wait_def)
qed

lemma waiter_run_listen:
  assumes "ext_ok E" and "storage_inv E (ws_storage w)"
    and "state_at E (ws_storage w) (height i) = Ok (Some v)"
    and "ws_pc w i = Listening"
  shows "\<exists>w'. waiter_run E V height i 2 w = Some w' \<and> ws_pc w' i = Returned v"
proof -
  let ?w = "w\<lparr>ws_event := listen V i (ws_event w), ws_pc := (ws_pc w)(i := Checking)\<rparr>"
  have "get_state_or_wait E V height i w = Some ?w"
    using assms(4) by (simp add: get_state_or_wait_def)
  moreover have "\<exists>w'. waiter_run E V height i 1 ?w = Some w' \<and> ws_pc w' i = Returned v"
    using assms by (intro waiter_run_check) simp_all
  ultimately show ?thesis by (simp add: numeral_2_eq_2)
qed

text \<open>C28: A waiter gets its block.  Once the awaited state can be read and the writer is idle, the task
  returns that state within three steps of its own, in whatever phase of the loop it is and
  whatever has happened before.\<close>

theorem waiter_returns:
  assumes "wait_reach E V height w" and "ext_ok E" and "event_ok V"
    and "ws_writer w = WriterIdle" and "state_at E (ws_storage w) (height i) = Ok (Some v)"
    and "\<forall>u. ws_pc w i \<noteq> Returned u"
  shows "\<exists>n w'. n \<le> 3 \<and> waiter_run E V height i n w = Some w' \<and> ws_pc w' i = Returned v"
proof (cases "ws_pc w i")
  case Listening
  with waiter_run_listen [of E w height i v V] assms wait_reach_inv [OF assms(1-3)] show ?thesis
    by (intro exI [of _ 2]) (simp add: wait_inv_def)
next
  case Checking
  with waiter_run_check [of E w height i v V] assms wait_reach_inv [OF assms(1-3)] show ?thesis
    by (intro exI [of _ 1]) (simp add: wait_inv_def)
next
  case Awaiting
  let ?w = "w\<lparr>ws_pc := (ws_pc w)(i := Listening)\<rparr>"
  have inv: "wait_inv E V height w" by (rule wait_reach_inv [OF assms(1-3)])
  have "block_at E (db (ws_storage w)) (height i) \<noteq> None"
    using assms(5) by (auto simp: state_at_def split: if_splits option.splits)
  then have "is_notified V i (ws_event w)"
    using inv Awaiting assms(4) by (auto simp: wait_inv_def)
  with Awaiting have "get_state_or_wait E V height i w = Some ?w"
    by (simp add: get_state_or_wait_def)
  then have "waiter_run E V height i (Suc n) w = waiter_run E V height i n ?w" for n by simp
  moreover from inv have "storage_inv E (ws_storage ?w)" by (simp add: wait_inv_def)
  then have "\<exists>w'. waiter_run E V height i 2 ?w = Some w' \<and> ws_pc w' i = Returned v"
    by (rule waiter_run_listen [OF assms(2)]) (use assms(5) in simp_all)
  ultimately show ?thesis
    by (metis Suc_numeral Suc_1 order_refl semiring_norm(5))
next
  case (Returned u)
  with assms(6) show ?thesis by blast
qed

section \<open>Witnesses\<close>

text \<open>An event that keeps the ids of the registered and of the notified listeners.\<close>

definition demo_event :: "(nat set \<times> nat set) event_ops" where
  "demo_event = \<lparr>listen = (\<lambda>i (r, n). (insert i r, n - {i})),
     notify_all = (\<lambda>(r, n). (r, n \<union> r)),
     is_registered = (\<lambda>i (r, n). i \<in> r), is_notified = (\<lambda>i (r, n). i \<in> n)\<rparr>"

lemma demo_event_ok: "event_ok demo_event"
  by (auto simp: event_ok_def demo_event_def)

text \<open>Task 0 waits for block 1, which is not there: it listens, checks and falls asleep.\<close>

definition demo_wait0 :: "(nat, demo_state, demo_unsealed, nat set \<times> nat set) wait_sys" where
  "demo_wait0 = \<lparr>ws_storage = demo_storage, ws_event = ({}, {}), ws_pc = (\<lambda>_. Listening),
     ws_writer = WriterIdle\<rparr>"

lemma demo_wait0_reach: "wait_reach demo demo_event (\<lambda>_. 1) demo_wait0"
  unfolding demo_wait0_def by (rule wait_reach.start) (rule demo_reach)

lemma waiter_run_reach:
  "wait_reach E V height w \<Longrightarrow> waiter_run E V height i n w = Some w' \<Longrightarrow> wait_reach E V height w'"
proof (induction n arbitrary: w)
  case (Suc n)
  from Suc.prems(2) obtain w1 where "get_state_or_wait E V height i w = Some w1"
    and rest: "waiter_run E V height i n w1 = Some w'" by (auto split: option.splits)
  then have "wait_reach E V height w1"
    by (intro wait_reach.step [OF Suc.prems(1)] wait_step.waiter)
  then show ?case by (rule Suc.IH [OF _ rest])
qed simp

lemma demo_missing: "get_state demo 1 demo_storage = (Ok None, demo_storage)"
  by (simp add: get_state_def get_block_def query_block_def query_def demo_storage_defs Let_def)

definition demo_asleep :: "(nat, demo_state, demo_unsealed, nat set \<times> nat set) wait_sys" where
  "demo_asleep = demo_wait0\<lparr>ws_event := ({0}, {}), ws_pc := (\<lambda>_. Listening)(0 := Awaiting)\<rparr>"

lemma demo_asleep_run: "waiter_run demo demo_event (\<lambda>_. 1) 0 2 demo_wait0 = Some demo_asleep"
  by (simp add: numeral_2_eq_2 get_state_or_wait_def demo_wait0_def demo_asleep_def demo_missing)
    (simp add: demo_event_def)

lemma demo_asleep_reach: "wait_reach demo demo_event (\<lambda>_. 1) demo_asleep"
  by (rule waiter_run_reach [OF demo_wait0_reach demo_asleep_run])

theorem no_lost_wakeup_witness:
  "block_at demo (db (ws_storage demo_asleep)) 1 = None"
  by (rule no_lost_wakeup [OF demo_asleep_reach demo_ext_ok demo_event_ok, of 0])
    (simp_all add: demo_asleep_def demo_event_def demo_wait0_def)

text \<open>Block 1 is stored: task 0 returns it.\<close>

definition demo_wait1 :: "(nat, demo_state, demo_unsealed, nat set \<times> nat set) wait_sys" where
  "demo_wait1 = demo_wait0\<lparr>ws_storage := demo_storage1\<rparr>"

lemma demo_wait1_reach: "wait_reach demo demo_event (\<lambda>_. 1) demo_wait1"
  unfolding demo_wait1_def demo_wait0_def
  using wait_reach.start [OF demo_reach1, of demo_event "\<lambda>_. 1" "({}, {})"] by simp

theorem waiter_returns_witness:
  "\<exists>n w'. n \<le> 3 \<and> waiter_run demo demo_event (\<lambda>_. 1) 0 n demo_wait1 = Some w' \<and>
    ws_pc w' 0 =
      Returned \<lparr>ds_header = demo_header 1 2, ds_txs = [], ds_stakes = gc_stakes demo_genesis\<rparr>"
  by (rule waiter_returns [OF demo_wait1_reach demo_ext_ok demo_event_ok])
    (simp_all add: demo_wait1_def demo_wait0_def demo_state1)

end
