(* ===== verification/Cas.thy ===== *)
theory Cas
  imports Prelude
begin

text \<open>
  \<^verbatim>\<open>src/storage/smt.rs\<close>: the content-addressed store under the Merkle trees, which keys a
  \<^verbatim>\<open>meshanina::Mapping\<close> by the hash of the key it is given.  The mapping and the hash are
  not in the repository: they are the fields of \<open>mesha\<close>.  The contract a store has for its
  clients is the locale \<open>content_store\<close>.
\<close>

section \<open>The store\<close>

record 'm mesha =
  mesha_get :: "hashval \<Rightarrow> 'm \<Rightarrow> bytes option"
  mesha_insert :: "hashval \<Rightarrow> bytes \<Rightarrow> 'm \<Rightarrow> 'm"
  mesha_flush :: "'m \<Rightarrow> 'm"
  mesha_hash :: "bytes \<Rightarrow> hashval"

record 'm mesha_cas =
  inner :: 'm

definition cas_new :: "'m \<Rightarrow> 'm mesha_cas" where
  "cas_new d = \<lparr>inner = d\<rparr>"

definition cas_flush :: "('m, 'x) mesha_scheme \<Rightarrow> 'm mesha_cas \<Rightarrow> 'm mesha_cas" where
  "cas_flush M c = c\<lparr>inner := mesha_flush M (inner c)\<rparr>"

definition cas_get :: "('m, 'x) mesha_scheme \<Rightarrow> bytes \<Rightarrow> 'm mesha_cas \<Rightarrow> bytes option" where
  "cas_get M key c =
     (case mesha_get M (mesha_hash M key) (inner c) of None \<Rightarrow> None | Some v \<Rightarrow> Some v)"

definition cas_insert ::
    "('m, 'x) mesha_scheme \<Rightarrow> bytes \<Rightarrow> bytes \<Rightarrow> 'm mesha_cas \<Rightarrow> 'm mesha_cas" where
  "cas_insert M key v c = c\<lparr>inner := mesha_insert M (mesha_hash M key) v (inner c)\<rparr>"

text \<open>
  What \<^verbatim>\<open>meshanina\<close> and the hash provide: lookups see the latest insert of a key and a flush
  does not change them, and the hash does not collide on the keys in use, the set \<open>K\<close>.
\<close>

definition mesha_ok :: "('m, 'x) mesha_scheme \<Rightarrow> bytes set \<Rightarrow> bool" where
  "mesha_ok M K \<longleftrightarrow>
     (\<forall>h v m. mesha_get M h (mesha_insert M h v m) = Some v) \<and>
     (\<forall>h h' v m. h \<noteq> h' \<longrightarrow> mesha_get M h' (mesha_insert M h v m) = mesha_get M h' m) \<and>
     (\<forall>h m. mesha_get M h (mesha_flush M m) = mesha_get M h m) \<and>
     inj_on (mesha_hash M) K"

section \<open>The contract\<close>

locale content_store =
  fixes ok :: "'c \<Rightarrow> bool"
    and K :: "bytes set"
    and lookup :: "bytes \<Rightarrow> 'c \<Rightarrow> bytes option"
    and store :: "bytes \<Rightarrow> bytes \<Rightarrow> 'c \<Rightarrow> 'c"
    and sync :: "'c \<Rightarrow> 'c"
  assumes ok_store: "ok c \<Longrightarrow> ok (store k v c)"
    and ok_sync: "ok c \<Longrightarrow> ok (sync c)"
    and lookup_same: "ok c \<Longrightarrow> k \<in> K \<Longrightarrow> lookup k (store k v c) = Some v"
    and lookup_other: "ok c \<Longrightarrow> k \<in> K \<Longrightarrow> j \<in> K \<Longrightarrow> j \<noteq> k \<Longrightarrow>
      lookup j (store k v c) = lookup j c"
    and lookup_sync: "ok c \<Longrightarrow> lookup k (sync c) = lookup k c"
begin

lemma ok_fold: "ok c \<Longrightarrow> ok (fold (\<lambda>(k, v). store k v) kvs c)"
  by (induction kvs arbitrary: c) (auto intro: ok_store)

text \<open>Writing a batch of nodes and syncing: every key reads back its last value.\<close>

lemma lookup_batch:
  assumes "ok c" and "fst ` set kvs \<subseteq> K" and "k \<in> K"
  shows "lookup k (sync (fold (\<lambda>(k, v). store k v) kvs c)) =
    (case map_of (rev kvs) k of None \<Rightarrow> lookup k c | Some v \<Rightarrow> Some v)"
  using assms
proof (induction kvs rule: rev_induct)
  case Nil
  then show ?case by (simp add: lookup_sync)
next
  case (snoc kv kvs)
  obtain j v where kv: "kv = (j, v)" by fastforce
  have ok: "ok (fold (\<lambda>(k, v). store k v) kvs c)" by (rule ok_fold) (rule snoc.prems)
  from snoc ok have "lookup k (fold (\<lambda>(k, v). store k v) kvs c) =
    (case map_of (rev kvs) k of None \<Rightarrow> lookup k c | Some v \<Rightarrow> Some v)"
    by (simp add: lookup_sync)
  with snoc.prems ok kv show ?case
    by (auto simp: lookup_sync ok_store lookup_same lookup_other)
qed

text \<open>Content addressing makes repeated writes harmless.\<close>

lemma store_again:
  "ok c \<Longrightarrow> k \<in> K \<Longrightarrow> j \<in> K \<Longrightarrow> lookup k c = Some v \<Longrightarrow> lookup j (store k v c) = lookup j c"
  by (cases "j = k") (simp_all add: lookup_same lookup_other)

end

interpretation mesha: content_store
  "\<lambda>_. mesha_ok M K" K "cas_get M" "cas_insert M" "cas_flush M" for M K
proof
  fix c :: "'a mesha_cas" and k j v
  assume ok: "mesha_ok M K" and "k \<in> K" and "j \<in> K" and "j \<noteq> k"
  then have "mesha_hash M k \<noteq> mesha_hash M j"
    by (auto simp: mesha_ok_def inj_on_def)
  with ok show "cas_get M j (cas_insert M k v c) = cas_get M j c"
    by (simp add: mesha_ok_def cas_get_def cas_insert_def)
qed (auto simp: mesha_ok_def cas_get_def cas_insert_def cas_flush_def split: option.splits)

section \<open>Properties\<close>

text \<open>C29: A batch of Merkle nodes written to the store and flushed reads back: every key gives the last
  value written under it, and every other key its value from before, as long as the hash does
  not collide on the keys in use.\<close>

theorem cas_batch_roundtrip:
  assumes "mesha_ok M K" and "fst ` set kvs \<subseteq> K" and "k \<in> K"
  shows "cas_get M k (cas_flush M (fold (\<lambda>(k, v). cas_insert M k v) kvs c)) =
    (case map_of (rev kvs) k of None \<Rightarrow> cas_get M k c | Some v \<Rightarrow> Some v)"
  by (rule mesha.lookup_batch [OF assms])

text \<open>A mapping that is an association list, with a hash that adds up the bytes of the key.\<close>

definition demo_mesha :: "(hashval \<times> bytes) list mesha" where
  "demo_mesha = \<lparr>mesha_get = (\<lambda>h m. map_of m h), mesha_insert = (\<lambda>h v m. (h, v) # m),
     mesha_flush = (\<lambda>m. m), mesha_hash = (\<lambda>bs. of_nat (sum_list (map unat bs)))\<rparr>"

theorem cas_batch_roundtrip_witness:
  "cas_get demo_mesha [1] (cas_flush demo_mesha
     (fold (\<lambda>(k, v). cas_insert demo_mesha k v) [([1], [10]), ([2], [20]), ([1], [30])] (cas_new []))) =
   Some [30]"
proof -
  have "mesha_ok demo_mesha {[1], [2]}"
    by (simp add: mesha_ok_def demo_mesha_def inj_on_def)
  from cas_batch_roundtrip [OF this, of "[([1], [10]), ([2], [20]), ([1], [30])]" "[1]" "cas_new []"]
  show ?thesis by simp
qed

end
