(* ===== verification/Staker.thy ===== *)
theory Staker
  imports Storage_Props
begin

text \<open>
  \<^verbatim>\<open>src/staker.rs\<close>: what a staker does around the consensus algorithm \<^verbatim>\<open>streamlette\<close>,
  which is a parameter: it turns the staker's proposal into a decision, or never decides.
  Modelled are the schedule of the rounds, the proposal, the callbacks of the algorithm, the
  gathering of signatures and the commit, one round of the main loop and any sequence of
  rounds, a pass of the synchronisation of the algorithm, and the two requests stakers answer.  Keys and signing are the record \<open>signer\<close>.
\<close>

section \<open>Configuration and state\<close>

record signer =
  to_public :: "bytes \<Rightarrow> pubkey"
  sign :: "bytes \<Rightarrow> hashval \<Rightarrow> bytes"

text \<open>\<^verbatim>\<open>StakerConfig\<close> of \<^verbatim>\<open>src/args.rs\<close>.\<close>

record staker_config =
  signing_secret :: bytes
  sc_listen :: sock_addr
  sc_bootstrap :: sock_addr
  payout_addr :: hashval
  target_fee_multiplier :: u128

text \<open>For each height the signatures gathered for the block decided there.\<close>

type_synonym sigs_map = "(pubkey \<times> bytes) list"
type_synonym gather = "(u64 \<times> sigs_map) list"

record ('f, 'u) staker =
  sig_gather :: gather
  sk_storage :: "('f, 'u) storage"

section \<open>The schedule\<close>

text \<open>
  Times are nanoseconds since the epoch; \<^verbatim>\<open>SystemTime\<close> holds its seconds in 64 bits with
  a sign.
\<close>

definition MAINNET_START_TIME :: nat where
  "MAINNET_START_TIME = (1618365600 + 30 * 6000) * 10 ^ 9"

definition TESTNET_START_TIME :: nat where
  "TESTNET_START_TIME = 1665123000 * 10 ^ 9"

definition time_add :: "nat \<Rightarrow> u64 \<Rightarrow> nat res" where
  "time_add t secs =
     (if t + unat secs * 10 ^ 9 < 2 ^ 63 * 10 ^ 9 then Ok (t + unat secs * 10 ^ 9)
      else Panic Overflow)"

definition height_to_time :: "nat \<Rightarrow> netid \<Rightarrow> u64 \<Rightarrow> nat res" where
  "height_to_time now netid height =
     (case netid of
        Testnet \<Rightarrow> bind_res (checked_mul height 30) (time_add TESTNET_START_TIME)
      | Mainnet \<Rightarrow> bind_res (checked_mul height 30) (time_add MAINNET_START_TIME)
      | _ \<Rightarrow> Ok now)"

section \<open>The callbacks of the consensus algorithm\<close>

definition generate_proposal :: "('f, 's, 'u, 'k, 'x) ext_scheme \<Rightarrow> block \<Rightarrow> bytes" where
  "generate_proposal E my_proposal = enc_block E my_proposal"

text \<open>The nodes that the attempt writes stay in the forest.\<close>

definition verify_proposal ::
    "('f, 's, 'u, 'k, 'x) ext_scheme \<Rightarrow> 's \<Rightarrow> bytes \<Rightarrow> 'f \<Rightarrow> bool \<times> 'f" where
  "verify_proposal E base_state prop f =
     (case dec_block E prop of
        Some blk \<Rightarrow> (let (r, f) = stf_apply_block E blk base_state f in (is_ok r, f))
      | None \<Rightarrow> (False, f))"

text \<open>The map of weights; \<^verbatim>\<open>syms_staked.0 as u64\<close> keeps the low 64 bits.\<close>

definition weight_of :: "(pubkey \<times> u64) list \<Rightarrow> pubkey \<Rightarrow> u64" where
  "weight_of m pk = (case map_of m pk of Some w \<Rightarrow> w | None \<Rightarrow> 0)"

fun add_weights ::
    "('f, 's, 'u, 'k, 'x) ext_scheme \<Rightarrow> u64 \<Rightarrow> (bytes \<times> bytes) list \<Rightarrow> (pubkey \<times> u64) list \<Rightarrow>
     (pubkey \<times> u64) list res" where
  "add_weights E ep [] m = Ok m"
| "add_weights E ep (val # vals) m =
     (case dec_doc E (snd val) of
        None \<Rightarrow> Panic ExpectFailed
      | Some stake_doc \<Rightarrow>
          if sd_e_start stake_doc \<le> ep \<and> ep < sd_e_post_end stake_doc then
            bind_res (checked_add (weight_of m (sd_pubkey stake_doc)) (ucast (sd_syms_staked stake_doc)))
              (\<lambda>w. add_weights E ep vals (AList.update (sd_pubkey stake_doc) w m))
          else add_weights E ep vals m)"

definition vote_weights ::
    "('f, 's, 'u, 'k, 'x) ext_scheme \<Rightarrow> 's \<Rightarrow> (pubkey \<times> u64) list res" where
  "vote_weights E base_state =
     bind_res (checked_add (hd_height (state_header E base_state)) 1) (\<lambda>height.
       add_weights E (epoch E height) (pre_tip911 E (raw_stakes E base_state)) [])"

section \<open>Gathering signatures\<close>

text \<open>\<^verbatim>\<open>sig_gather.entry(height).or_default()\<close>.\<close>

definition gather_entry :: "u64 \<Rightarrow> gather \<Rightarrow> sigs_map" where
  "gather_entry height g = (case map_of g height of Some m \<Rightarrow> m | None \<Rightarrow> [])"

definition gather_remove :: "u64 \<Rightarrow> gather \<Rightarrow> gather" where
  "gather_remove next_height g =
     (if 10 < next_height then AList.delete (next_height - 10) g else g)"

definition gather_own ::
    "('f, 's, 'u, 'k, 'x) ext_scheme \<Rightarrow> signer \<Rightarrow> bytes \<Rightarrow> block \<Rightarrow> gather \<Rightarrow> gather" where
  "gather_own E X secret decision g =
     AList.update (height_of decision)
       [(to_public X secret, sign X secret (header_hash E (b_header decision)))] g"

definition gather_merge :: "u64 \<Rightarrow> sigs_map \<Rightarrow> gather \<Rightarrow> gather" where
  "gather_merge next_height new g =
     AList.update next_height (fold (\<lambda>(k, v). AList.update k v) new (gather_entry next_height g)) g"

definition vote_threshold :: "('f, 's, 'u, 'k, 'x) ext_scheme \<Rightarrow> 's \<Rightarrow> u128 res" where
  "vote_threshold E base_state =
     bind_res (checked_mul (ss_total_votes E (raw_stakes E base_state)
         (epoch E (hd_height (state_header E base_state)))) 2)
       (\<lambda>doubled. Ok (doubled div 3))"

definition get_proof ::
    "('f, 's, 'u, 'k, 'x) ext_scheme \<Rightarrow> 's \<Rightarrow> u128 \<Rightarrow> u64 \<Rightarrow> gather \<Rightarrow> cproof option res \<times> gather" where
  "get_proof E base_state threshold height g =
     (let m = gather_entry height g;
          ep = epoch E (hd_height (state_header E base_state))
      in (bind_res (checked_sum 0 (map (\<lambda>(pk, _). ss_votes E (raw_stakes E base_state) ep pk) m))
            (\<lambda>votes. Ok (if threshold < votes then Some m else None)),
          AList.update height m g))"

section \<open>Committing a decision\<close>

text \<open>
  \<^verbatim>\<open>skip_round.or(...)\<close>: wherever the round has to wait, the rest of the node goes on,
  which may change the storage, and a block that has arrived at the next height ends the round
  once \<open>skip_round\<close> has seen it.  It reads the storage on another thread, so the round may go
  past a wait before it has: \<open>noticed\<close> says whether a look at the storage is over by then.
\<close>

definition unless_stored ::
    "('f, 's, 'u, 'k, 'x) ext_scheme \<Rightarrow> bool \<Rightarrow> u64 \<Rightarrow>
     (('f, 'u) staker \<Rightarrow> bool res \<times> ('f, 'u) staker) \<Rightarrow> ('f, 'u) staker \<Rightarrow> bool res \<times> ('f, 'u) staker" where
  "unless_stored E noticed next_height rest y =
     (if noticed then
        bind_st (let (r, s) = get_state E next_height (sk_storage y) in (r, y\<lparr>sk_storage := s\<rparr>))
          (\<lambda>skip y. case skip of Some _ \<Rightarrow> (Ok True, y) | None \<Rightarrow> rest y)
      else rest y)"

definition elapse ::
    "(('f, 'u) storage \<Rightarrow> ('f, 'u) storage) \<Rightarrow> ('f, 'u) staker \<Rightarrow> ('f, 'u) staker" where
  "elapse meanwhile y = y\<lparr>sk_storage := meanwhile (sk_storage y)\<rparr>"

text \<open>
  The last loop of a round.  Each turn of it talks to one neighbour; the list has what came
  of it, \<open>None\<close> when there was none or it did not answer, whether \<open>skip_round\<close> has looked at
  the storage in that time, and what the rest of the node did in it.  An error of \<^verbatim>\<open>apply_block\<close> is only logged.  The value says whether the
  round has ended within these turns.
\<close>

type_synonym ('f, 'u) neighbour =
  "sigs_map option \<times> bool \<times> (('f, 'u) storage \<Rightarrow> ('f, 'u) storage)"

definition merge_answer :: "u64 \<Rightarrow> sigs_map option \<Rightarrow> ('f, 'u) staker \<Rightarrow> ('f, 'u) staker" where
  "merge_answer next_height answer y =
     (case answer of
        None \<Rightarrow> y
      | Some new \<Rightarrow> y\<lparr>sig_gather := gather_merge next_height new (sig_gather y)\<rparr>)"

definition commit_step ::
    "('f, 's, 'u, 'k, 'x) ext_scheme \<Rightarrow> 's \<Rightarrow> u128 \<Rightarrow> block \<Rightarrow> ('f, 'u) staker \<Rightarrow>
     bool res \<times> ('f, 'u) staker" where
  "commit_step E base_state threshold decision y =
     (case get_proof E base_state threshold (height_of decision) (sig_gather y) of
        (Ok (Some cproof), g) \<Rightarrow>
          (let (r, s) = apply_block E decision cproof (sk_storage y);
               y = y\<lparr>sig_gather := g, sk_storage := s\<rparr>
           in case r of Panic p \<Rightarrow> (Panic p, y) | _ \<Rightarrow> (Ok True, y))
      | (Ok None, g) \<Rightarrow> (Ok False, y\<lparr>sig_gather := g\<rparr>)
      | (Err e, g) \<Rightarrow> (Err e, y\<lparr>sig_gather := g\<rparr>)
      | (Panic p, g) \<Rightarrow> (Panic p, y\<lparr>sig_gather := g\<rparr>))"

fun commit_loop ::
    "('f, 's, 'u, 'k, 'x) ext_scheme \<Rightarrow> 's \<Rightarrow> u128 \<Rightarrow> block \<Rightarrow> u64 \<Rightarrow> ('f, 'u) neighbour list \<Rightarrow>
     ('f, 'u) staker \<Rightarrow> bool res \<times> ('f, 'u) staker" where
  "commit_loop E base_state threshold decision next_height [] y =
     commit_step E base_state threshold decision y"
| "commit_loop E base_state threshold decision next_height ((answer, noticed, meanwhile) # neighs) y =
     bind_st (commit_step E base_state threshold decision y) (\<lambda>ended y.
       if ended then (Ok True, y)
       else unless_stored E noticed next_height
         (\<lambda>y. commit_loop E base_state threshold decision next_height neighs y)
         (elapse meanwhile (merge_answer next_height answer y)))"

section \<open>One round\<close>

definition proposer_choice ::
    "('f, 's, 'u, 'k, 'x) ext_scheme \<Rightarrow> staker_config \<Rightarrow> 's \<Rightarrow> proposer_action" where
  "proposer_choice E cfg base_state =
     \<lparr>fee_multiplier_delta =
        (if target_fee_multiplier cfg < hd_fee_multiplier (state_header E base_state) then -100 else 100),
      reward_dest = payout_addr cfg\<rparr>"

text \<open>The proposal, if the mempool is at the right height; otherwise it is moved there.\<close>

definition propose ::
    "('f, 's, 'u, 'k, 'x) ext_scheme \<Rightarrow> staker_config \<Rightarrow> 's \<Rightarrow> u64 \<Rightarrow> ('f, 'u) staker \<Rightarrow>
     block option \<times> ('f, 'u) staker" where
  "propose E cfg base_state next_height y =
     (let proposed_state = to_state (st_mempool (sk_storage y))
      in if hd_height (state_header E (seal E None proposed_state)) \<noteq> next_height then
           (None, y\<lparr>sk_storage := (sk_storage y)
              \<lparr>st_mempool := rebase E base_state (st_mempool (sk_storage y))\<rparr>\<rparr>)
         else
           (Some (to_block E (seal E (Some (proposer_choice E cfg base_state)) proposed_state)), y))"

text \<open>
  What happens around one round: the clock; what the rest of the node does until the time of
  the next height, and while the consensus algorithm runs, and whether \<open>skip_round\<close> has looked
  at the storage by then; the decision of the algorithm for a nonce and a proposal, if it comes
  to one; and the turns of the last loop.
\<close>

record ('f, 'u) round =
  rd_now :: nat
  rd_meanwhile :: "('f, 'u) storage \<Rightarrow> ('f, 'u) storage"
  rd_during :: "('f, 'u) storage \<Rightarrow> ('f, 'u) storage"
  rd_noticed :: bool
  rd_decide :: "u128 \<Rightarrow> bytes \<Rightarrow> bytes option"
  rd_neighs :: "('f, 'u) neighbour list"

text \<open>The second half of a round, when there is a proposal.\<close>

definition decide_block ::
    "('f, 's, 'u, 'k, 'x) ext_scheme \<Rightarrow> signer \<Rightarrow> staker_config \<Rightarrow> ('f, 'u) round \<Rightarrow> 's \<Rightarrow> u64 \<Rightarrow>
     block \<Rightarrow> ('f, 'u) staker \<Rightarrow> bool res \<times> ('f, 'u) staker" where
  "decide_block E X cfg rd base_state next_height my_proposal y =
     (case rd_decide rd (ucast (hd_height (state_header E base_state)))
             (generate_proposal E my_proposal) of
        None \<Rightarrow> (Ok False, y)
      | Some decided \<Rightarrow>
          (case dec_block E decided of
             None \<Rightarrow> (Panic ExpectFailed, y)
           | Some decision \<Rightarrow>
               bind_st (vote_threshold E base_state,
                   y\<lparr>sig_gather := gather_own E X (signing_secret cfg) decision (sig_gather y)\<rparr>)
                 (\<lambda>threshold. commit_loop E base_state threshold decision next_height (rd_neighs rd))))"

definition decide_round ::
    "('f, 's, 'u, 'k, 'x) ext_scheme \<Rightarrow> signer \<Rightarrow> staker_config \<Rightarrow> ('f, 'u) round \<Rightarrow> 's \<Rightarrow> u64 \<Rightarrow>
     ('f, 'u) staker \<Rightarrow> bool res \<times> ('f, 'u) staker" where
  "decide_round E X cfg rd base_state next_height y =
     (case propose E cfg base_state next_height y of
        (None, y) \<Rightarrow> (Ok True, y)
      | (Some my_proposal, y) \<Rightarrow>
          unless_stored E (rd_noticed rd) next_height
            (decide_block E X cfg rd base_state next_height my_proposal) (elapse (rd_during rd) y))"

text \<open>
  One turn of the loop of \<^verbatim>\<open>network_task_inner\<close>.  When \<open>skip_round\<close> is first asked it has to
  wait for the other thread, so \<open>decide_round\<close> always gets to its own first wait: the mempool may
  be moved to \<open>base_state\<close> although the block at the next height is there already.
\<close>

definition staker_round ::
    "('f, 's, 'u, 'k, 'x) ext_scheme \<Rightarrow> signer \<Rightarrow> staker_config \<Rightarrow> ('f, 'u) round \<Rightarrow>
     ('f, 'u) staker \<Rightarrow> bool res \<times> ('f, 'u) staker" where
  "staker_round E X cfg rd y =
     bind_st (let (r, s) = highest_state E (sk_storage y) in (r, y\<lparr>sk_storage := s\<rparr>)) (\<lambda>base_state y.
     bind_st (checked_add (hd_height (state_header E base_state)) 1, y) (\<lambda>next_height y.
     bind_st (height_to_time (rd_now rd) (hd_network (state_header E base_state)) next_height, y)
       (\<lambda>next_time y.
     decide_round E X cfg rd base_state next_height
       (elapse (rd_meanwhile rd)
         (y\<lparr>sig_gather := gather_remove next_height (sig_gather y)\<rparr>)))))"

text \<open>
  The loop of \<^verbatim>\<open>network_task_inner\<close> over a list of rounds; one that does not end keeps it.
\<close>

fun staker_rounds ::
    "('f, 's, 'u, 'k, 'x) ext_scheme \<Rightarrow> signer \<Rightarrow> staker_config \<Rightarrow> ('f, 'u) round list \<Rightarrow>
     ('f, 'u) staker \<Rightarrow> unit res \<times> ('f, 'u) staker" where
  "staker_rounds E X cfg [] y = (Ok (), y)"
| "staker_rounds E X cfg (rd # rds) y =
     bind_st (staker_round E X cfg rd y) (\<lambda>ended y.
       if ended then staker_rounds E X cfg rds y else (Ok (), y))"

text \<open>
  \<^verbatim>\<open>network_task_inner\<close>: \<open>listens\<close> says whether the staker network can be joined.  The
  gatherer is made anew.
\<close>

definition network_task_inner ::
    "('f, 's, 'u, 'k, 'x) ext_scheme \<Rightarrow> signer \<Rightarrow> staker_config \<Rightarrow> bool \<Rightarrow> ('f, 'u) round list \<Rightarrow>
     ('f, 'u) storage \<Rightarrow> unit res \<times> ('f, 'u) storage" where
  "network_task_inner E X cfg listens rds s =
     (if listens then
        let (r, y) = staker_rounds E X cfg rds \<lparr>sig_gather = [], sk_storage = s\<rparr>
        in (r, sk_storage y)
      else (Err (Context ''cannot start listen'' RpcFailed), s))"

text \<open>
  \<^verbatim>\<open>network_task\<close> over a list of attempts: an error is logged and the staker starts again.
\<close>

fun network_task ::
    "('f, 's, 'u, 'k, 'x) ext_scheme \<Rightarrow> signer \<Rightarrow> staker_config \<Rightarrow> (bool \<times> ('f, 'u) round list) list \<Rightarrow>
     ('f, 'u) storage \<Rightarrow> unit res \<times> ('f, 'u) storage" where
  "network_task E X cfg [] s = (Ok (), s)"
| "network_task E X cfg ((listens, rds) # attempts) s =
     (case network_task_inner E X cfg listens rds s of
        (Err e, s) \<Rightarrow> network_task E X cfg attempts s
      | (Ok _, s) \<Rightarrow> (Ok (), s)
      | (Panic p, s) \<Rightarrow> (Panic p, s))"

section \<open>Synchronising the consensus algorithm\<close>

text \<open>
  One pass of \<^verbatim>\<open>sync_core\<close> over the routes.  The core of the algorithm is opaque: \<open>summary\<close>
  is what it tells of itself, \<open>apply_one\<close> takes one diff or refuses it, and \<open>fetch\<close> is what a
  route answers, \<open>None\<close> if it cannot be reached in time.
\<close>

definition sync_route ::
    "('core \<Rightarrow> 'sum) \<Rightarrow> ('diff \<Rightarrow> 'core \<Rightarrow> unit res \<times> 'core) \<Rightarrow>
     (sock_addr \<Rightarrow> u128 \<Rightarrow> 'sum \<Rightarrow> 'diff list option) \<Rightarrow> u128 \<Rightarrow> sock_addr \<Rightarrow> 'core \<Rightarrow> 'core" where
  "sync_route summary apply_one fetch nonce route core =
     (case fetch route nonce (summary core) of
        Some diffs \<Rightarrow> fold (\<lambda>diff core. snd (apply_one diff core)) diffs core
      | None \<Rightarrow> core)"

definition sync_core ::
    "('core \<Rightarrow> 'sum) \<Rightarrow> ('diff \<Rightarrow> 'core \<Rightarrow> unit res \<times> 'core) \<Rightarrow>
     (sock_addr \<Rightarrow> u128 \<Rightarrow> 'sum \<Rightarrow> 'diff list option) \<Rightarrow> u128 \<Rightarrow> sock_addr list \<Rightarrow> 'core \<Rightarrow> 'core" where
  "sync_core summary apply_one fetch nonce routes core =
     fold (sync_route summary apply_one fetch nonce) routes core"

section \<open>The requests of other stakers\<close>

definition get_sigs ::
    "('f, 's, 'u, 'k, 'x) ext_scheme \<Rightarrow> u64 \<Rightarrow> ('f, 'u) staker \<Rightarrow> sigs_map res" where
  "get_sigs E height y =
     bind_res (get_consensus E height (sk_storage y)) (\<lambda>stored.
       case stored of
         Some val \<Rightarrow> Ok val
       | None \<Rightarrow> Ok (gather_entry height (sig_gather y)))"

text \<open>
  \<^verbatim>\<open>respond\<close>: what a running decider with \<open>our_nonce\<close> answers.  \<^verbatim>\<open>get_diff\<close>:
  \<open>running\<close> is the decider that takes the request from the channel, if one does, with its
  nonce and what it has for a summary.
\<close>

definition respond :: "u128 \<Rightarrow> ('sum \<Rightarrow> 'diff list) \<Rightarrow> u128 \<Rightarrow> 'sum \<Rightarrow> 'diff list" where
  "respond our_nonce core_diff nonce their_summary =
     (if nonce = our_nonce then core_diff their_summary else [])"

definition get_diff :: "(u128 \<times> ('sum \<Rightarrow> 'diff list)) option \<Rightarrow> u128 \<Rightarrow> 'sum \<Rightarrow> 'diff list" where
  "get_diff running nonce summary =
     (case running of
        None \<Rightarrow> []
      | Some (our_nonce, core_diff) \<Rightarrow> respond our_nonce core_diff nonce summary)"

end
