(* ===== verification/Staker_Props.thy ===== *)
theory Staker_Props
  imports Staker
begin

text \<open>
  Properties of the staker: the weights it gives to consensus agree with the votes the
  commit counts, its rounds touch the chain only through \<^verbatim>\<open>apply_block\<close>, and what a
  neighbour that sends forged signatures can do.
\<close>

section \<open>Weights\<close>

lemma weight_of_update [simp]:
  "weight_of (AList.update pk w m) pk' = (if pk' = pk then w else weight_of m pk')"
  by (simp add: weight_of_def update_conv)

definition active_at :: "u64 \<Rightarrow> stake_doc \<Rightarrow> bool" where
  "active_at ep sd \<longleftrightarrow> sd_e_start sd \<le> ep \<and> ep < sd_e_post_end sd"

definition low_stake :: "u64 \<Rightarrow> pubkey \<Rightarrow> stake_doc list \<Rightarrow> nat" where
  "low_stake ep pk sds =
     (\<Sum>sd\<leftarrow>filter (\<lambda>sd. active_at ep sd \<and> sd_pubkey sd = pk) sds. unat (sd_syms_staked sd) mod 2 ^ 64)"

lemma unat_low: "unat (ucast x :: u64) = unat x mod 2 ^ 64" for x :: u128
  by (simp add: unsigned_ucast_eq unsigned_take_bit_eq take_bit_eq_mod)

lemma add_weights_Ok:
  "decode_docs E docs = Some sds \<Longrightarrow> add_weights E ep docs m = Ok m' \<Longrightarrow>
   unat (weight_of m' pk) = unat (weight_of m pk) + low_stake ep pk sds"
proof (induction docs arbitrary: sds m)
  case Nil
  then show ?case by (simp add: low_stake_def)
next
  case (Cons x docs)
  from Cons.prems(1) obtain sd sds' where sd: "dec_doc E (snd x) = Some sd"
    and sds': "decode_docs E docs = Some sds'" and sds: "sds = sd # sds'"
    by (auto split: option.splits)
  show ?case
  proof (cases "active_at ep sd")
    case False
    with Cons.prems(2) sd have "add_weights E ep docs m = Ok m'"
      by (auto simp: active_at_def split: if_splits)
    with Cons.IH [OF sds'] False sds show ?thesis by (simp add: low_stake_def)
  next
    case True
    with Cons.prems(2) sd obtain w
      where w: "checked_add (weight_of m (sd_pubkey sd)) (ucast (sd_syms_staked sd)) = Ok w"
      and rest: "add_weights E ep docs (AList.update (sd_pubkey sd) w m) = Ok m'"
      by (auto simp: active_at_def bind_res_Ok_iff)
    from w have "unat w = unat (weight_of m (sd_pubkey sd)) + unat (sd_syms_staked sd) mod 2 ^ 64"
      by (simp add: checked_add_Ok_iff unat_low)
    with Cons.IH [OF sds' rest] True sds show ?thesis by (simp add: low_stake_def)
  qed
qed

lemma vote_weights_Ok:
  assumes "vote_weights E base = Ok m"
    and "decode_docs E (pre_tip911 E (raw_stakes E base)) = Some sds"
    and "unat h = Suc (unat (hd_height (state_header E base)))"
  shows "unat (weight_of m pk) = low_stake (epoch E h) pk sds"
proof -
  from assms(1,3) have "add_weights E (epoch E h) (pre_tip911 E (raw_stakes E base)) [] = Ok m"
    by (auto simp: vote_weights_def bind_res_Ok_iff checked_add_Ok_iff word_unat_eq_iff)
      (metis word_unat_eq_iff)
  from add_weights_Ok [OF assms(2) this] show ?thesis by (simp add: weight_of_def)
qed

lemma is_active_at: "is_active E hdr = active_at (epoch E (hd_height hdr))"
  by (simp add: fun_eq_iff is_active_def active_at_def)

lemma low_stake_exact:
  assumes "\<forall>sd\<in>set sds. unat (sd_syms_staked sd) < 2 ^ 64"
  shows "low_stake ep pk sds = stake_sum (filter (\<lambda>sd. active_at ep sd \<and> sd_pubkey sd = pk) sds)"
  using assms unfolding low_stake_def stake_sum_def
  by (intro arg_cong [where f = sum_list] map_cong) auto

text \<open>The stake behind a set of keys, counted by key and counted by document.\<close>

lemma stake_by_key:
  assumes "finite S"
  shows "(\<Sum>pk\<in>S. stake_sum (filter (\<lambda>sd. P sd \<and> sd_pubkey sd = pk) sds)) =
    stake_sum (filter (\<lambda>sd. P sd \<and> sd_pubkey sd \<in> S) sds)"
proof (induction sds)
  case (Cons sd sds)
  have "(\<Sum>pk\<in>S. stake_sum (filter (\<lambda>sd. P sd \<and> sd_pubkey sd = pk) (sd # sds))) =
      (\<Sum>pk\<in>S. (if P sd \<and> sd_pubkey sd = pk then unat (sd_syms_staked sd) else 0) +
        stake_sum (filter (\<lambda>sd. P sd \<and> sd_pubkey sd = pk) sds))"
    by (intro sum.cong) auto
  also have "\<dots> = (\<Sum>pk\<in>S. if P sd \<and> sd_pubkey sd = pk then unat (sd_syms_staked sd) else 0) +
      stake_sum (filter (\<lambda>sd. P sd \<and> sd_pubkey sd \<in> S) sds)"
    unfolding sum.distrib Cons ..
  also have "(\<Sum>pk\<in>S. if P sd \<and> sd_pubkey sd = pk then unat (sd_syms_staked sd) else 0) =
      (if P sd \<and> sd_pubkey sd \<in> S then unat (sd_syms_staked sd) else 0)"
    using assms by (cases "P sd") (simp_all add: sum.delta)
  finally show ?case by simp
qed simp

lemma stake_sum_mono:
  "(\<And>sd. sd \<in> set sds \<Longrightarrow> P sd \<Longrightarrow> Q sd) \<Longrightarrow> stake_sum (filter P sds) \<le> stake_sum (filter Q sds)"
  by (induction sds) auto

text \<open>The weights of all keys, and of some, in the terms of the commit's count.\<close>

lemma decided_weights:
  assumes "vote_weights E base = Ok m"
    and "decode_docs E (pre_tip911 E (raw_stakes E base)) = Some sds"
    and "unat (hd_height hdr) = Suc (unat (hd_height (state_header E base)))"
    and "\<forall>sd\<in>set sds. unat (sd_syms_staked sd) < 2 ^ 64" and "finite S"
  shows "(\<Sum>pk\<in>sd_pubkey ` set sds. unat (weight_of m pk)) = total_spec E hdr sds"
    and "(\<Sum>pk\<in>S. unat (weight_of m pk)) =
      stake_sum (filter (\<lambda>sd. is_active E hdr sd \<and> sd_pubkey sd \<in> S) sds)"
proof -
  let ?act = "is_active E hdr"
  have w: "unat (weight_of m pk) = stake_sum (filter (\<lambda>sd. ?act sd \<and> sd_pubkey sd = pk) sds)" for pk
    by (simp add: vote_weights_Ok [OF assms(1-3)] low_stake_exact [OF assms(4)] is_active_at)
  have "(\<Sum>pk\<in>sd_pubkey ` set sds. unat (weight_of m pk)) =
      stake_sum (filter (\<lambda>sd. ?act sd \<and> sd_pubkey sd \<in> sd_pubkey ` set sds) sds)"
    unfolding w by (rule stake_by_key) simp
  also have "\<dots> = total_spec E hdr sds"
    unfolding total_spec_def by (intro arg_cong [where f = stake_sum] filter_cong) auto
  finally show "(\<Sum>pk\<in>sd_pubkey ` set sds. unat (weight_of m pk)) = total_spec E hdr sds" .
  show "(\<Sum>pk\<in>S. unat (weight_of m pk)) = stake_sum (filter (\<lambda>sd. ?act sd \<and> sd_pubkey sd \<in> S) sds)"
    unfolding w by (rule stake_by_key [OF assms(5)])
qed

lemma signers_in_map: "\<forall>pk\<in>S. \<exists>sig. map_of cp pk = Some sig \<and> P pk sig \<Longrightarrow> S \<subseteq> set (map fst cp)"
  by (auto simp del: set_map dest: map_of_SomeD) (metis map_of_eq_None_iff option.distinct(1) set_map)

section \<open>The votes of a stake set\<close>

text \<open>
  What the crate of the state machine promises of a stake set: the votes of a key at an epoch
  are the stakes of its documents that are active then, and the total votes those of all active
  documents, as long as they fit 128 bits.
\<close>

definition votes_law :: "('f, 's, 'u, 'k, 'x) ext_scheme \<Rightarrow> bool" where
  "votes_law E \<longleftrightarrow> (\<forall>k sds ep. decode_docs E (pre_tip911 E k) = Some sds \<longrightarrow>
     (stake_sum (filter (active_at ep) sds) < 2 ^ 128 \<longrightarrow>
        unat (ss_total_votes E k ep) = stake_sum (filter (active_at ep) sds)) \<and>
     (\<forall>pk. stake_sum (filter (\<lambda>sd. active_at ep sd \<and> sd_pubkey sd = pk) sds) < 2 ^ 128 \<longrightarrow>
        unat (ss_votes E k ep pk) = stake_sum (filter (\<lambda>sd. active_at ep sd \<and> sd_pubkey sd = pk) sds)))"

lemma votes_law_total:
  assumes "votes_law E" and "decode_docs E (pre_tip911 E k) = Some sds"
    and "stake_sum (filter (active_at ep) sds) < 2 ^ 128"
  shows "unat (ss_total_votes E k ep) = stake_sum (filter (active_at ep) sds)"
  using assms by (simp add: votes_law_def)

lemma votes_law_key:
  assumes "votes_law E" and "decode_docs E (pre_tip911 E k) = Some sds"
    and "stake_sum (filter (\<lambda>sd. active_at ep sd \<and> sd_pubkey sd = pk) sds) < 2 ^ 128"
  shows "unat (ss_votes E k ep pk) = stake_sum (filter (\<lambda>sd. active_at ep sd \<and> sd_pubkey sd = pk) sds)"
  using assms by (simp add: votes_law_def)

text \<open>The votes of the keys gathered, each counted once, and those of none of them active.\<close>

lemma gathered_votes_sum:
  assumes "votes_law E" and "decode_docs E (pre_tip911 E k) = Some sds"
    and "stake_sum (filter (active_at ep) sds) < 2 ^ 128" and "distinct (map fst cp)"
    and "unat v = stake_sum (filter (\<lambda>sd. active_at ep sd \<and> sd_pubkey sd \<in> set (map fst cp)) sds)"
  shows "checked_sum 0 (map (\<lambda>(pk, _). ss_votes E k ep pk) cp) = Ok v"
proof -
  let ?votes = "\<lambda>pk. stake_sum (filter (\<lambda>sd. active_at ep sd \<and> sd_pubkey sd = pk) sds)"
  have "?votes pk \<le> stake_sum (filter (active_at ep) sds)" for pk by (rule stake_sum_mono) simp
  with assms(3) have votes: "unat (ss_votes E k ep pk) = ?votes pk" for pk
    by (intro votes_law_key [OF assms(1,2)]) (rule le_less_trans)
  have "sum_list (map unat (map (\<lambda>(pk, _). ss_votes E k ep pk) cp)) = sum_list (map ?votes (map fst cp))"
    by (simp add: votes comp_def case_prod_beta)
  also have "\<dots> = (\<Sum>pk\<in>set (map fst cp). ?votes pk)"
    by (rule sum.distinct_set_conv_list [OF assms(4), symmetric])
  also have "\<dots> = unat v" unfolding assms(5) by (rule stake_by_key) simp
  finally show ?thesis by (simp add: checked_sum_Ok_iff)
qed

lemma gathered_votes_none:
  assumes "votes_law E" and "decode_docs E (pre_tip911 E k) = Some sds"
    and "\<forall>sd\<in>set sds. active_at ep sd \<longrightarrow> map_of cp (sd_pubkey sd) = None"
  shows "checked_sum 0 (map (\<lambda>(pk, _). ss_votes E k ep pk) cp) = Ok 0"
proof -
  have "unat (ss_votes E k ep pk) = 0" if "pk \<in> set (map fst cp)" for pk
  proof -
    have none: "filter (\<lambda>sd. active_at ep sd \<and> sd_pubkey sd = pk) sds = []"
      using assms(3) that by (auto simp: filter_empty_conv map_of_eq_None_iff)
    show ?thesis by (simp add: votes_law_key [OF assms(1,2)] none)
  qed
  then show ?thesis by (force simp: checked_sum_Ok_iff)
qed

text \<open>A majority of the keys gathered is over the threshold.\<close>

lemma gathered_majority:
  assumes "votes_law E" and "decode_docs E (pre_tip911 E (raw_stakes E base)) = Some sds"
    and "ep = epoch E (hd_height (state_header E base))"
    and "2 * stake_sum (filter (active_at ep) sds) < 2 ^ 128" and "distinct (map fst (gather_entry h g))"
    and "2 * stake_sum (filter (active_at ep) sds) <
      3 * stake_sum (filter (\<lambda>sd. active_at ep sd \<and> sd_pubkey sd \<in> set (map fst (gather_entry h g))) sds)"
      (is "_ < 3 * ?v")
  shows "\<exists>th. vote_threshold E base = Ok th \<and>
    fst (get_proof E base th h g) = Ok (Some (gather_entry h g))"
proof -
  let ?t = "stake_sum (filter (active_at ep) sds)" and ?k = "raw_stakes E base"
  have "?v \<le> ?t" by (rule stake_sum_mono) simp
  with assms(4) have fits: "?t < 2 ^ 128" "?v < 2 ^ 128" by simp_all
  have tot: "unat (ss_total_votes E ?k ep) = ?t" by (rule votes_law_total [OF assms(1,2) fits(1)])
  define v :: u128 where "v = of_nat ?v"
  have v: "unat v = ?v" unfolding v_def using fits(2) by (simp add: unsigned_of_nat take_bit_nat_eq_self)
  note sum = gathered_votes_sum [OF assms(1,2) fits(1) assms(5) v]
  define dbl :: u128 where "dbl = ss_total_votes E ?k ep * 2"
  have d: "unat dbl = 2 * ?t"
    unfolding dbl_def using assms(4) tot by (simp add: unat_word_ariths)
  have "checked_mul (ss_total_votes E ?k ep) 2 = Ok dbl"
    using assms(4) tot by (simp add: checked_mul_Ok_iff d)
  then have th: "vote_threshold E base = Ok (dbl div 3)"
    by (simp add: vote_threshold_def assms(3))
  have "unat (dbl div 3) = 2 * ?t div 3" by (simp add: unat_div d)
  with assms(6) v have "dbl div 3 < v" by (simp add: word_less_nat_alt div_less_iff_less_mult)
  then have "fst (get_proof E base (dbl div 3) h g) = Ok (Some (gather_entry h g))"
    using sum by (simp add: get_proof_def Let_def assms(3))
  with th show ?thesis by blast
qed

section \<open>Rounds keep the chain\<close>

text \<open>\<open>s'\<close> has the invariant and every block of \<open>s\<close>.\<close>

definition keeps ::
    "('f, 's, 'u, 'k, 'x) ext_scheme \<Rightarrow> ('f, 'u) storage \<Rightarrow> ('f, 'u) storage \<Rightarrow> bool" where
  "keeps E s s' \<longleftrightarrow> storage_inv E s' \<and>
     (\<forall>h b. block_at E (db s) h = Some b \<longrightarrow> block_at E (db s') h = Some b)"

lemma keeps_refl: "storage_inv E s \<Longrightarrow> keeps E s s"
  by (simp add: keeps_def)

lemma keeps_trans: "keeps E s s1 \<Longrightarrow> keeps E s1 s2 \<Longrightarrow> keeps E s s2"
  by (simp add: keeps_def)

lemma keeps_inv: "keeps E s s' \<Longrightarrow> storage_inv E s'"
  by (simp add: keeps_def)

lemma keeps_apply_block:
  assumes "ext_ok E" and "storage_inv E s" and "apply_block E b p s = (r, s')"
  shows "keeps E s s'"
  using st.put_inv [of E s b p r s'] st.put_mono [of E s b p r s'] assms
  by (auto simp: keeps_def)

lemma keeps_highest_state:
  assumes "ext_ok E" and "storage_inv E s" and "highest_state E s = (r, s')"
  shows "keeps E s s'"
  using highest_state_spec [OF assms(1,2)] assms(2,3) storage_inv_cache [OF assms(2)]
  by (auto simp: keeps_def)

lemma keeps_get_state:
  assumes "ext_ok E" and "storage_inv E s" and "get_state E h s = (r, s')"
  shows "keeps E s s'"
  using get_state_spec [OF assms(1,2), of h] assms(2,3) storage_inv_cache [OF assms(2)]
  by (auto simp: keeps_def)

lemma commit_step_keeps:
  assumes "ext_ok E" and "storage_inv E (sk_storage y)"
    and "commit_step E base threshold decision y = (r, y')"
  shows "keeps E (sk_storage y) (sk_storage y')"
proof -
  obtain rp g where gp: "get_proof E base threshold (height_of decision) (sig_gather y) = (rp, g)"
    by fastforce
  show ?thesis
  proof (cases "\<exists>cp. rp = Ok (Some cp)")
    case True
    then obtain cp where cp: "rp = Ok (Some cp)" by blast
    obtain ra s where ap: "apply_block E decision cp (sk_storage y) = (ra, s)" by fastforce
    have "sk_storage y' = s"
      using assms(3) gp cp ap by (cases ra) (auto simp: commit_step_def Let_def)
    with keeps_apply_block [OF assms(1,2) ap] show ?thesis by simp
  next
    case False
    then have "sk_storage y' = sk_storage y"
      using assms(3) gp by (auto simp: commit_step_def split: res.splits option.splits)
    with assms(2) show ?thesis by (simp add: keeps_refl)
  qed
qed

text \<open>A point where the round waits: it ends there, or goes on.\<close>

lemma unless_stored_cases:
  assumes "unless_stored E noticed h rest y = (r, y')"
  obtains (stop) rs s where "get_state E h (sk_storage y) = (rs, s)" and "rs \<noteq> Ok None"
      and "y' = y\<lparr>sk_storage := s\<rparr>"
  | (go) s where "get_state E h (sk_storage y) = (Ok None, s)" and "rest (y\<lparr>sk_storage := s\<rparr>) = (r, y')"
  | (unseen) "rest y = (r, y')"
proof -
  obtain rs s where gs: "get_state E h (sk_storage y) = (rs, s)" by fastforce
  show thesis
  proof (cases noticed)
    case False
    with assms unseen show ?thesis by (simp add: unless_stored_def)
  next
    case noticed: True
    show ?thesis
    proof (cases "rs = Ok None")
      case True
      with noticed gs assms go show ?thesis by (simp add: unless_stored_def)
    next
      case False
      with noticed gs assms stop show ?thesis
        by (cases rs) (auto simp: unless_stored_def split: option.splits)
    qed
  qed
qed

lemma unless_stored_absent:
  assumes "get_state E h (sk_storage y) = (Ok None, sk_storage y)"
  shows "unless_stored E noticed h rest y = rest y"
  using assms by (simp add: unless_stored_def)

lemma unless_stored_keeps:
  assumes "ext_ok E" and "storage_inv E (sk_storage y)" and "unless_stored E noticed h rest y = (r, y')"
    and "\<And>y1. storage_inv E (sk_storage y1) \<Longrightarrow> rest y1 = (r, y') \<Longrightarrow> keeps E (sk_storage y1) (sk_storage y')"
  shows "keeps E (sk_storage y) (sk_storage y')"
  using assms(3)
proof (cases rule: unless_stored_cases)
  case (stop rs s)
  then show ?thesis using keeps_get_state [OF assms(1,2) stop(1)] by simp
next
  case (go s)
  have "keeps E (sk_storage y) s" by (rule keeps_get_state [OF assms(1,2) go(1)])
  moreover from keeps_inv [OF this] go(2) have "keeps E s (sk_storage y')"
    using assms(4) [of "y\<lparr>sk_storage := s\<rparr>"] by simp
  ultimately show ?thesis by (rule keeps_trans)
qed (rule assms(4) [OF assms(2)])

text \<open>The rest of the node keeps what is stored.\<close>

definition benign :: "('f, 's, 'u, 'k, 'x) ext_scheme \<Rightarrow> (('f, 'u) storage \<Rightarrow> ('f, 'u) storage) \<Rightarrow> bool" where
  "benign E meanwhile \<longleftrightarrow> (\<forall>s. storage_inv E s \<longrightarrow> keeps E s (meanwhile s))"

definition benign_round :: "('f, 's, 'u, 'k, 'x) ext_scheme \<Rightarrow> ('f, 'u) round \<Rightarrow> bool" where
  "benign_round E rd \<longleftrightarrow> benign E (rd_meanwhile rd) \<and> benign E (rd_during rd) \<and>
     (\<forall>(answer, noticed, meanwhile)\<in>set (rd_neighs rd). benign E meanwhile)"

lemma elapse_keeps:
  "benign E meanwhile \<Longrightarrow> storage_inv E (sk_storage y) \<Longrightarrow>
   keeps E (sk_storage y) (sk_storage (elapse meanwhile y))"
  by (simp add: benign_def elapse_def)

lemma elapse_id [simp]: "elapse (\<lambda>s. s) y = y"
  by (simp add: elapse_def)

lemma elapse_gather [simp]: "sig_gather (elapse meanwhile y) = sig_gather y"
  by (simp add: elapse_def)

lemma merge_answer_storage [simp]: "sk_storage (merge_answer h answer y) = sk_storage y"
  by (simp add: merge_answer_def split: option.splits)

lemma wait_keeps:
  assumes "ext_ok E" and "benign E meanwhile" and "storage_inv E (sk_storage y)"
    and "unless_stored E noticed h rest (elapse meanwhile y) = (r, y')"
    and "\<And>y1. storage_inv E (sk_storage y1) \<Longrightarrow> rest y1 = (r, y') \<Longrightarrow> keeps E (sk_storage y1) (sk_storage y')"
  shows "keeps E (sk_storage y) (sk_storage y')"
proof -
  note k = elapse_keeps [OF assms(2,3)]
  from unless_stored_keeps [OF assms(1) keeps_inv [OF k] assms(4,5)] k show ?thesis
    by (blast intro: keeps_trans)
qed

lemma commit_loop_keeps:
  assumes "ext_ok E"
  shows "\<forall>(answer, noticed, meanwhile)\<in>set neighs. benign E meanwhile \<Longrightarrow> storage_inv E (sk_storage y) \<Longrightarrow>
    commit_loop E base threshold decision h neighs y = (r, y') \<Longrightarrow>
    keeps E (sk_storage y) (sk_storage y')"
proof (induction neighs arbitrary: y)
  case Nil
  then show ?case using commit_step_keeps [OF assms] by simp
next
  case (Cons nb neighs)
  obtain answer noticed meanwhile where nb: "nb = (answer, noticed, meanwhile)"
    by (cases nb) auto
  from Cons.prems(3) nb have "bind_st (commit_step E base threshold decision y) (\<lambda>ended y.
      if ended then (Ok True, y)
      else unless_stored E noticed h (\<lambda>y. commit_loop E base threshold decision h neighs y)
        (elapse meanwhile (merge_answer h answer y))) = (r, y')" by simp
  then show ?case
  proof (cases rule: bind_st_cases)
    case (ok ended y1)
    have k1: "keeps E (sk_storage y) (sk_storage y1)"
      by (rule commit_step_keeps [OF assms Cons.prems(2) ok(1)])
    show ?thesis
    proof (cases ended)
      case True
      with ok k1 show ?thesis by simp
    next
      case False
      with ok(2) have "unless_stored E noticed h (\<lambda>y. commit_loop E base threshold decision h neighs y)
          (elapse meanwhile (merge_answer h answer y1)) = (r, y')" by simp
      moreover have "benign E meanwhile" and rest: "\<forall>(answer, noticed, meanwhile)\<in>set neighs. benign E meanwhile"
        using Cons.prems(1) nb by simp_all
      moreover have "storage_inv E (sk_storage (merge_answer h answer y1))"
        using keeps_inv [OF k1] by simp
      ultimately have "keeps E (sk_storage (merge_answer h answer y1)) (sk_storage y')"
        using wait_keeps [OF assms] Cons.IH [OF rest] by blast
      then have "keeps E (sk_storage y1) (sk_storage y')" by simp
      with k1 show ?thesis by (rule keeps_trans)
    qed
  qed (use commit_step_keeps [OF assms Cons.prems(2)] in blast)+
qed

lemma decide_block_keeps:
  assumes "ext_ok E" and "benign_round E rd" and "storage_inv E (sk_storage y)"
    and "decide_block E X cfg rd base h p y = (r, y')"
  shows "keeps E (sk_storage y) (sk_storage y')"
proof (cases "\<exists>d b. rd_decide rd (ucast (hd_height (state_header E base))) (generate_proposal E p) = Some d \<and>
    dec_block E d = Some b")
  case True
  then obtain d b where
    "rd_decide rd (ucast (hd_height (state_header E base))) (generate_proposal E p) = Some d"
    "dec_block E d = Some b" by blast
  with assms(4) have "bind_st (vote_threshold E base,
      y\<lparr>sig_gather := gather_own E X (signing_secret cfg) b (sig_gather y)\<rparr>)
    (\<lambda>threshold. commit_loop E base threshold b h (rd_neighs rd)) = (r, y')"
    by (simp add: decide_block_def)
  then show ?thesis
    by (cases rule: bind_st_cases)
      (use commit_loop_keeps [OF assms(1), of "rd_neighs rd"
          "y\<lparr>sig_gather := gather_own E X (signing_secret cfg) b (sig_gather y)\<rparr>"]
        assms(2,3) in \<open>auto simp: keeps_refl benign_round_def\<close>)
next
  case False
  with assms(4) have "y' = y" by (auto simp: decide_block_def split: option.splits)
  with assms(3) show ?thesis by (simp add: keeps_refl)
qed

lemma propose_keeps:
  assumes "storage_inv E (sk_storage y)" and "propose E cfg base h y = (op, y')"
  shows "keeps E (sk_storage y) (sk_storage y')"
  using assms by (auto simp: propose_def Let_def keeps_def storage_inv_def split: if_splits)

lemma decide_round_keeps:
  assumes "ext_ok E" and "benign_round E rd" and "storage_inv E (sk_storage y)"
    and "decide_round E X cfg rd base h y = (r, y')"
  shows "keeps E (sk_storage y) (sk_storage y')"
proof -
  obtain op y1 where op: "propose E cfg base h y = (op, y1)" by fastforce
  note k1 = propose_keeps [OF assms(3) op]
  show ?thesis
  proof (cases op)
    case None
    with assms(4) op k1 show ?thesis by (simp add: decide_round_def)
  next
    case (Some p)
    with assms(4) op have "unless_stored E (rd_noticed rd) h (decide_block E X cfg rd base h p)
        (elapse (rd_during rd) y1) = (r, y')" by (simp add: decide_round_def)
    from wait_keeps [OF assms(1) _ keeps_inv [OF k1] this decide_block_keeps [OF assms(1,2)]] assms(2)
    have "keeps E (sk_storage y1) (sk_storage y')" by (simp add: benign_round_def)
    with k1 show ?thesis by (rule keeps_trans)
  qed
qed

text \<open>A round until it first waits.\<close>

lemma staker_round_start:
  assumes "staker_round E X cfg rd y = (r, y')"
  obtains (fails) rb s where "highest_state E (sk_storage y) = (rb, s)" and "y' = y\<lparr>sk_storage := s\<rparr>"
      and "\<forall>v. r \<noteq> Ok v"
  | (starts) base s h where "highest_state E (sk_storage y) = (Ok base, s)"
      and "checked_add (hd_height (state_header E base)) 1 = Ok h"
      and "decide_round E X cfg rd base h (elapse (rd_meanwhile rd)
        (y\<lparr>sk_storage := s, sig_gather := gather_remove h (sig_gather y)\<rparr>)) = (r, y')"
proof -
  obtain rb s where hs: "highest_state E (sk_storage y) = (rb, s)" by fastforce
  show thesis
  proof (cases "\<exists>base h t. rb = Ok base \<and> checked_add (hd_height (state_header E base)) 1 = Ok h \<and>
      height_to_time (rd_now rd) (hd_network (state_header E base)) h = Ok t")
    case True
    then obtain base h t where "rb = Ok base" "checked_add (hd_height (state_header E base)) 1 = Ok h"
      "height_to_time (rd_now rd) (hd_network (state_header E base)) h = Ok t" by blast
    with assms hs show ?thesis by (intro starts [of base s h]) (simp_all add: staker_round_def)
  next
    case False
    with assms hs have "y' = y\<lparr>sk_storage := s\<rparr> \<and> (\<forall>v. r \<noteq> Ok v)"
      by (cases rb) (auto simp: staker_round_def elim!: bind_st_cases)
    with hs fails show ?thesis by blast
  qed
qed

lemma staker_round_keeps:
  assumes "ext_ok E" and "benign_round E rd" and "storage_inv E (sk_storage y)"
    and "staker_round E X cfg rd y = (r, y')"
  shows "keeps E (sk_storage y) (sk_storage y')"
  using assms(4)
proof (cases rule: staker_round_start)
  case (fails rb s)
  then show ?thesis using keeps_highest_state [OF assms(1,3) fails(1)] by simp
next
  case (starts base s h)
  let ?y = "y\<lparr>sk_storage := s, sig_gather := gather_remove h (sig_gather y)\<rparr>"
  have k: "keeps E (sk_storage y) s" by (rule keeps_highest_state [OF assms(1,3) starts(1)])
  have "benign E (rd_meanwhile rd)" using assms(2) by (simp add: benign_round_def)
  from elapse_keeps [OF this, of ?y] keeps_inv [OF k]
  have k1: "keeps E s (sk_storage (elapse (rd_meanwhile rd) ?y))" by simp
  from k1 decide_round_keeps [OF assms(1,2) keeps_inv [OF k1] starts(3)]
  have "keeps E s (sk_storage y')" by (rule keeps_trans)
  with k show ?thesis by (rule keeps_trans)
qed

section \<open>The gatherer\<close>

abbreviation heights :: "gather \<Rightarrow> u64 set" where
  "heights g \<equiv> dom (map_of g)"

lemma heights_update [simp]: "heights (AList.update h m g) = insert h (heights g)"
  by (simp add: update_conv')

lemma gather_entry_update [simp]: "gather_entry h (AList.update h m g) = m"
  by (simp add: gather_entry_def update_conv)

lemma get_proof_gather: "snd (get_proof E base threshold h g) = AList.update h (gather_entry h g) g"
  by (simp add: get_proof_def Let_def)

lemma commit_step_gather:
  assumes "commit_step E base threshold decision y = (r, y')"
  shows "sig_gather y' = AList.update (height_of decision) (gather_entry (height_of decision) (sig_gather y)) (sig_gather y)"
proof -
  obtain rp g where gp: "get_proof E base threshold (height_of decision) (sig_gather y) = (rp, g)"
    by fastforce
  then have g: "g = AList.update (height_of decision) (gather_entry (height_of decision) (sig_gather y)) (sig_gather y)"
    using get_proof_gather [of E base threshold "height_of decision" "sig_gather y"] by simp
  have "sig_gather y' = g"
  proof (cases "\<exists>cp. rp = Ok (Some cp)")
    case True
    then obtain cp where cp: "rp = Ok (Some cp)" by blast
    obtain ra s where "apply_block E decision cp (sk_storage y) = (ra, s)" by fastforce
    with assms gp cp show ?thesis by (cases ra) (auto simp: commit_step_def Let_def)
  next
    case False
    with assms gp show ?thesis by (auto simp: commit_step_def split: res.splits option.splits)
  qed
  with g show ?thesis by simp
qed

lemma merge_answer_heights: "heights (sig_gather (merge_answer h answer y)) \<subseteq> insert h (heights (sig_gather y))"
  by (auto simp: merge_answer_def gather_merge_def split: option.splits)

lemma unless_stored_heights:
  assumes "unless_stored E noticed h rest y = (r, y')"
    and "\<And>y1. sig_gather y1 = sig_gather y \<Longrightarrow> rest y1 = (r, y') \<Longrightarrow> heights (sig_gather y') \<subseteq> H"
    and "heights (sig_gather y) \<subseteq> H"
  shows "heights (sig_gather y') \<subseteq> H"
  using assms(1)
proof (cases rule: unless_stored_cases)
  case (go s)
  then show ?thesis by (intro assms(2) [of "y\<lparr>sk_storage := s\<rparr>"]) simp_all
qed (use assms(2,3) in auto)

lemma commit_loop_heights:
  "commit_loop E base threshold decision h neighs y = (r, y') \<Longrightarrow>
   heights (sig_gather y') \<subseteq> heights (sig_gather y) \<union> {h, height_of decision}"
proof (induction neighs arbitrary: y)
  case Nil
  then show ?case using commit_step_gather [of E base threshold decision y r y'] by auto
next
  case (Cons nb neighs)
  obtain answer noticed meanwhile where nb: "nb = (answer, noticed, meanwhile)"
    by (cases nb) auto
  from Cons.prems nb have "bind_st (commit_step E base threshold decision y) (\<lambda>ended y.
      if ended then (Ok True, y)
      else unless_stored E noticed h (\<lambda>y. commit_loop E base threshold decision h neighs y)
        (elapse meanwhile (merge_answer h answer y))) = (r, y')" by simp
  then show ?case
  proof (cases rule: bind_st_cases)
    case (ok ended y1)
    note g1 = commit_step_gather [OF ok(1)]
    show ?thesis
    proof (cases ended)
      case True
      with ok g1 show ?thesis by auto
    next
      case False
      with ok(2) have "unless_stored E noticed h (\<lambda>y. commit_loop E base threshold decision h neighs y)
          (elapse meanwhile (merge_answer h answer y1)) = (r, y')" by simp
      moreover have "heights (sig_gather (elapse meanwhile (merge_answer h answer y1))) \<subseteq>
          heights (sig_gather y) \<union> {h, height_of decision}"
        using merge_answer_heights [of h answer y1] g1 by auto
      ultimately show ?thesis
        by (rule_tac unless_stored_heights) (use Cons.IH in fastforce)+
    qed
  next
    case (err e)
    with commit_step_gather [of E base threshold decision y "Err e" y'] show ?thesis by auto
  next
    case (panic e)
    with commit_step_gather [of E base threshold decision y "Panic e" y'] show ?thesis by auto
  qed
qed

lemma decide_block_heights:
  assumes "decide_block E X cfg rd base h p y = (r, y')"
    and "\<forall>nonce p d b. rd_decide rd nonce p = Some d \<and> dec_block E d = Some b \<longrightarrow> height_of b = h"
  shows "heights (sig_gather y') \<subseteq> insert h (heights (sig_gather y))"
proof (cases "\<exists>d b. rd_decide rd (ucast (hd_height (state_header E base))) (generate_proposal E p) = Some d \<and>
    dec_block E d = Some b")
  case True
  then obtain d b where d:
    "rd_decide rd (ucast (hd_height (state_header E base))) (generate_proposal E p) = Some d"
    "dec_block E d = Some b" by blast
  let ?y = "y\<lparr>sig_gather := gather_own E X (signing_secret cfg) b (sig_gather y)\<rparr>"
  from d assms(2) have hb: "height_of b = h" by blast
  from assms(1) d have "bind_st (vote_threshold E base, ?y)
    (\<lambda>threshold. commit_loop E base threshold b h (rd_neighs rd)) = (r, y')" by (simp add: decide_block_def)
  moreover have gy: "heights (sig_gather ?y) = insert h (heights (sig_gather y))"
    using hb by (simp add: gather_own_def)
  ultimately show ?thesis
  proof (cases rule: bind_st_cases)
    case (ok threshold y2)
    then have "commit_loop E base threshold b h (rd_neighs rd) ?y = (r, y')" by simp
    from commit_loop_heights [OF this] show ?thesis unfolding gy hb by blast
  qed (use gy in auto)
next
  case False
  with assms(1) show ?thesis by (auto simp: decide_block_def split: option.splits)
qed

lemma decide_round_heights:
  assumes "decide_round E X cfg rd base h y = (r, y')"
    and "\<forall>nonce p d b. rd_decide rd nonce p = Some d \<and> dec_block E d = Some b \<longrightarrow> height_of b = h"
  shows "heights (sig_gather y') \<subseteq> insert h (heights (sig_gather y))"
proof -
  obtain op y1 where op: "propose E cfg base h y = (op, y1)" by fastforce
  then have g1: "sig_gather y1 = sig_gather y" by (auto simp: propose_def Let_def split: if_splits)
  show ?thesis
  proof (cases op)
    case None
    with assms(1) op g1 show ?thesis by (auto simp: decide_round_def)
  next
    case (Some p)
    with assms(1) op have "unless_stored E (rd_noticed rd) h (decide_block E X cfg rd base h p)
        (elapse (rd_during rd) y1) = (r, y')" by (simp add: decide_round_def)
    then show ?thesis
      by (rule unless_stored_heights) (use decide_block_heights [OF _ assms(2)] g1 in fastforce)+
  qed
qed

text \<open>The loop of a round: neighbours that do not answer, and one whose answer is enough.\<close>

lemma commit_step_same:
  "commit_step E base threshold decision y = (Ok False, y1) \<Longrightarrow> sk_storage y1 = sk_storage y"
  by (auto simp: commit_step_def Let_def split: res.splits option.splits prod.splits)

lemma commit_step_again:
  assumes "commit_step E base threshold decision y = (Ok False, y1)"
  shows "commit_step E base threshold decision y1 = (Ok False, y1)"
  using assms
  by (auto simp: commit_step_def get_proof_def gather_entry_def Let_def update_conv' update_triv
      bind_res_Ok_iff split: res.splits option.splits prod.splits if_splits)

lemma get_state_absent:
  assumes "ext_ok E" and "storage_inv E s" and "sql_bindable E h" and "block_at E (db s) h = None"
  shows "get_state E h s = (Ok None, s)"
proof -
  have "map_of (old_cache s) h = None"
    using assms(2,4) by (cases "map_of (old_cache s) h") (auto simp: storage_inv_def coherent_def)
  moreover have "query_block E h (db s) = Ok None"
    using query_block_eq [of E "db s" h] assms by (simp add: ext_okD storage_inv_def)
  ultimately show ?thesis by (simp add: get_state_def get_block_def)
qed

lemma get_state_next:
  assumes "ext_ok E" and "storage_inv E s" and "sql_bindable E h" and "unat h = Suc (unat (highest_height s))"
  shows "get_state E h s = (Ok None, s)"
proof -
  have inv: "tables_inv E (db s)" using assms(2) by (simp add: storage_inv_def)
  have "block_at E (db s) h = None"
    using block_at_ex [OF ext_okD(1) [OF assms(1)] inv, of h] highest_height_eq [OF inv] assms(4) by auto
  then show ?thesis by (rule get_state_absent [OF assms(1-3)])
qed

lemma apply_block_next:
  assumes "ext_ok E" and "storage_inv E s" and "apply_block E b p s = (Ok (), s')"
  shows "block_at E (db s') (height_of b) = Some b" and "highest_height s' = height_of b"
    and "get_state E (height_of b) s = (Ok None, s)"
proof -
  have inv: "tables_inv E (db s)" and inv': "tables_inv E (db s')"
    using assms(2) keeps_inv [OF keeps_apply_block [OF assms]] by (simp_all add: storage_inv_def)
  have put: "unat (height_of b) = Suc (length (history (db s)))"
    "length (history (db s')) = Suc (length (history (db s)))"
    using st.put_Ok [OF _ assms(3)] assms(1,2) by (simp_all add: tip_height_def)
  show reads: "block_at E (db s') (height_of b) = Some b"
    using st.put_reads_back [OF _ assms(3)] assms(1,2) by simp
  show "highest_height s' = height_of b"
    using put highest_height_eq [OF inv'] by (simp add: word_unat_eq_iff)
  show "get_state E (height_of b) s = (Ok None, s)"
    using block_at_bindable [OF ext_okD(1) [OF assms(1)] inv' reads] put highest_height_eq [OF inv]
    by (intro get_state_next [OF assms(1,2)]) simp_all
qed

lemma commit_loop_silent:
  assumes "commit_step E base threshold decision y = (Ok False, y1)"
    and "get_state E h (sk_storage y) = (Ok None, sk_storage y)"
  shows "commit_loop E base threshold decision h
      (map (\<lambda>noticed. (None, noticed, \<lambda>s. s)) ns @ (Some answer, noticed, \<lambda>s. s) # neighs) y =
    commit_loop E base threshold decision h ((Some answer, noticed, \<lambda>s. s) # neighs) y1"
proof -
  note again = commit_step_again [OF assms(1)]
  have skip: "unless_stored E noticed h rest (merge_answer h None y1) = rest y1" for noticed rest
    using commit_step_same [OF assms(1)] assms(2) by (simp add: unless_stored_absent merge_answer_def)
  have "commit_loop E base threshold decision h
        (map (\<lambda>noticed. (None, noticed, \<lambda>s. s)) ns @ (Some answer, noticed, \<lambda>s. s) # neighs) y1 =
      commit_loop E base threshold decision h ((Some answer, noticed, \<lambda>s. s) # neighs) y1"
    by (induction ns) (simp_all add: again skip)
  then show ?thesis
    using assms(1) again by (cases ns) (simp_all add: skip)
qed

lemma commit_loop_enough:
  assumes "commit_step E base threshold decision y = (Ok False, y1)" and "h = height_of decision"
    and "m = fold (\<lambda>(k, v). AList.update k v) answer (gather_entry h (sig_gather y))"
    and "checked_sum 0 (map (\<lambda>(pk, _). ss_votes E (raw_stakes E base)
      (epoch E (hd_height (state_header E base))) pk) m) = Ok votes" and "threshold < votes"
    and "apply_block E decision m (sk_storage y) = (r, s')" and "\<forall>p. r \<noteq> Panic p"
    and "get_state E h (sk_storage y) = (Ok None, sk_storage y)"
  shows "\<exists>y'. commit_loop E base threshold decision h ((Some answer, noticed, \<lambda>s. s) # neighs) y = (Ok True, y') \<and>
    sk_storage y' = s'"
proof -
  note g1 = commit_step_gather [OF assms(1)]
  note same = commit_step_same [OF assms(1)]
  let ?y = "y1\<lparr>sig_gather := gather_merge h answer (sig_gather y1)\<rparr>"
  have entry: "gather_entry h (gather_merge h answer (sig_gather y1)) = m"
    by (simp add: gather_merge_def g1 assms(2,3))
  have "get_proof E base threshold h (sig_gather ?y) = (Ok (Some m), AList.update h m (sig_gather ?y))"
    using assms(4,5) entry by (simp add: get_proof_def Let_def)
  then obtain y' where done': "commit_step E base threshold decision ?y = (Ok True, y')"
    and s': "sk_storage y' = s'"
    using assms(2,6,7) same by (cases r) (auto simp: commit_step_def Let_def)
  have "commit_loop E base threshold decision h neighs ?y = (Ok True, y')"
    using done' by (cases neighs) auto
  moreover have "unless_stored E noticed h rest (merge_answer h (Some answer) y1) = rest ?y" for rest
    using same assms(8) by (simp add: unless_stored_absent merge_answer_def)
  ultimately show ?thesis using assms(1) s' by simp
qed

lemma staker_rounds_keeps:
  assumes "ext_ok E"
  shows "\<forall>rd\<in>set rds. benign_round E rd \<Longrightarrow> storage_inv E (sk_storage y) \<Longrightarrow>
    staker_rounds E X cfg rds y = (r, y') \<Longrightarrow> keeps E (sk_storage y) (sk_storage y')"
proof (induction rds arbitrary: y)
  case Nil
  then show ?case by (simp add: keeps_refl)
next
  case (Cons rd rds)
  have round: "keeps E (sk_storage y) (sk_storage y1)" if "staker_round E X cfg rd y = (r1, y1)" for r1 y1
    by (rule staker_round_keeps [OF assms _ Cons.prems(2) that]) (use Cons.prems(1) in simp)
  from Cons.prems(3) have "bind_st (staker_round E X cfg rd y) (\<lambda>ended y.
      if ended then staker_rounds E X cfg rds y else (Ok (), y)) = (r, y')" by simp
  then show ?case
  proof (cases rule: bind_st_cases)
    case (ok ended y1)
    note k = round [OF ok(1)]
    show ?thesis
    proof (cases ended)
      case True
      with ok(2) Cons.IH [of y1] Cons.prems(1) keeps_inv [OF k]
      have "keeps E (sk_storage y1) (sk_storage y')" by simp
      with k show ?thesis by (rule keeps_trans)
    qed (use ok k in simp)
  qed (use round in blast)+
qed

lemma network_task_keeps:
  assumes "ext_ok E"
  shows "\<forall>(listens, rds)\<in>set attempts. \<forall>rd\<in>set rds. benign_round E rd \<Longrightarrow> storage_inv E s \<Longrightarrow>
    network_task E X cfg attempts s = (r, s') \<Longrightarrow> keeps E s s'"
proof (induction attempts arbitrary: s)
  case Nil
  then show ?case by (simp add: keeps_refl)
next
  case (Cons attempt attempts)
  obtain listens rds where at: "attempt = (listens, rds)" by fastforce
  obtain r1 s1 where inner: "network_task_inner E X cfg listens rds s = (r1, s1)" by fastforce
  have k: "keeps E s s1"
  proof (cases listens)
    case True
    obtain r2 y2 where run: "staker_rounds E X cfg rds \<lparr>sig_gather = [], sk_storage = s\<rparr> = (r2, y2)"
      by fastforce
    with True inner have "s1 = sk_storage y2" by (simp add: network_task_inner_def)
    with staker_rounds_keeps [OF assms _ _ run] Cons.prems(1,2) at show ?thesis by simp
  next
    case False
    with inner Cons.prems(2) show ?thesis by (auto simp: network_task_inner_def keeps_refl)
  qed
  show ?case
  proof (cases "\<exists>e. r1 = Err e")
    case True
    with Cons.prems(3) at inner have "network_task E X cfg attempts s1 = (r, s')" by auto
    with Cons.IH [of s1] Cons.prems(1) keeps_inv [OF k] have "keeps E s1 s'" by simp
    with k show ?thesis by (rule keeps_trans)
  next
    case False
    with Cons.prems(3) at inner k show ?thesis by (cases r1) auto
  qed
qed

text \<open>
  A block that arrives before a round starts leaves the mempool on the new tip; the round moves
  it back to the state it read at first.
\<close>

lemma round_moves_mempool_back:
  assumes "highest_state E (sk_storage y) = (Ok base, s)"
    and "checked_add (hd_height (state_header E base)) 1 = Ok h"
    and "height_to_time (rd_now rd) (hd_network (state_header E base)) h = Ok t"
    and "apply_block E b p s = (Ok (), rd_meanwhile rd s)"
    and "hd_height (state_header E (seal E None (to_state (st_mempool (rd_meanwhile rd s))))) \<noteq> h"
  shows "\<exists>y'. staker_round E X cfg rd y = (Ok True, y') \<and>
    db (sk_storage y') = db (rd_meanwhile rd s) \<and>
    to_state (st_mempool (sk_storage y')) = next_unsealed E base"
  using assms
  by (simp add: staker_round_def decide_round_def propose_def elapse_def rebase_def to_state_def Let_def)

section \<open>Properties\<close>

text \<open>C32: The three counts of a decided block's votes, one direction: a set of signers that holds more than
  two thirds of the weights given to the consensus algorithm, all of whom have a valid signature
  in the map gathered for the block, passes the vote check of the commit; and if the block is in
  the same epoch as the tip, the gathering loop finds the map to be enough, so the block does not
  get stuck for lack of votes.  Across the start of an epoch it does get stuck when no key in the
  map has a stake in the epoch of the tip, which is the one the loop counts in: every turn of the
  loop finds too few votes, whatever the threshold, although the commit would pass.  Every stake
  has to fit 64 bits and the sums 128, beyond which the casts lose bits and the additions abort.\<close>

theorem consensus_quorum_commits:
  assumes "votes_law E" and "vote_weights E base = Ok m"
    and "decode_docs E (pre_tip911 E (raw_stakes E base)) = Some sds"
    and "unat (height_of b) = Suc (unat (hd_height (state_header E base)))"
    and "\<forall>sd\<in>set sds. unat (sd_syms_staked sd) < 2 ^ 64" and "votes_fit E (b_header b) sds"
    and "cp = gather_entry (height_of b) g" and "distinct (map fst cp)" and "finite S"
    and "\<forall>pk\<in>S. \<exists>sig. map_of cp pk = Some sig \<and> verify E pk (header_hash E (b_header b)) sig"
    and "2 * (\<Sum>pk\<in>sd_pubkey ` set sds. unat (weight_of m pk)) < 3 * (\<Sum>pk\<in>S. unat (weight_of m pk))"
  shows "check_quorum E (b_header b) cp (pre_tip911 E (raw_stakes E base)) = Ok () \<and>
    (epoch E (height_of b) = epoch E (hd_height (state_header E base)) \<longrightarrow>
      (\<exists>th. vote_threshold E base = Ok th \<and> fst (get_proof E base th (height_of b) g) = Ok (Some cp))) \<and>
    ((\<forall>sd\<in>set sds. active_at (epoch E (hd_height (state_header E base))) sd \<longrightarrow>
        map_of cp (sd_pubkey sd) = None) \<longrightarrow>
      (\<forall>th. fst (get_proof E base th (height_of b) g) = Ok None))"
proof (intro conjI impI allI)
  let ?act = "is_active E (b_header b)"
  note weights = decided_weights [OF assms(2-5,9)]
  have "stake_sum (filter (\<lambda>sd. ?act sd \<and> sd_pubkey sd \<in> S) sds) \<le> present_spec E (b_header b) cp sds"
    unfolding present_spec_def
    by (rule stake_sum_mono) (use assms(10) in \<open>fastforce simp: has_signed_def\<close>)
  with assms(11) weights have "2 * total_spec E (b_header b) sds < 3 * present_spec E (b_header b) cp sds"
    by simp
  with present_code_ge [of E "b_header b" cp sds 0]
  show "check_quorum E (b_header b) cp (pre_tip911 E (raw_stakes E base)) = Ok ()"
    by (simp add: check_quorum_fit [OF assms(3,6)])
  show "\<exists>th. vote_threshold E base = Ok th \<and> fst (get_proof E base th (height_of b) g) = Ok (Some cp)"
    if "epoch E (height_of b) = epoch E (hd_height (state_header E base))"
  proof -
    have act: "?act = active_at (epoch E (hd_height (state_header E base)))"
      by (simp add: is_active_at that)
    have "S \<subseteq> set (map fst cp)" by (rule signers_in_map [OF assms(10)])
    then have "stake_sum (filter (\<lambda>sd. ?act sd \<and> sd_pubkey sd \<in> S) sds) \<le>
        stake_sum (filter (\<lambda>sd. ?act sd \<and> sd_pubkey sd \<in> set (map fst cp)) sds)"
      by (intro stake_sum_mono) auto
    with assms(11) weights votes_fitD(1) [OF assms(6)] assms(8) show ?thesis
      unfolding assms(7) by (intro gathered_majority [OF assms(1,3) refl]) (simp_all add: total_spec_def act)
  qed
  show "fst (get_proof E base th (height_of b) g) = Ok None"
    if "\<forall>sd\<in>set sds. active_at (epoch E (hd_height (state_header E base))) sd \<longrightarrow>
      map_of cp (sd_pubkey sd) = None" for th
    using gathered_votes_none [OF assms(1,3) that] unfolding assms(7) by (simp add: get_proof_def Let_def)
qed

text \<open>The weights keep the low 64 bits of each stake: the weight of a key is the sum, over its
  documents active at the next height, of the stakes modulo \<open>2 ^ 64\<close>.\<close>

theorem vote_weights_keep_low_bits:
  assumes "vote_weights E base = Ok m"
    and "decode_docs E (pre_tip911 E (raw_stakes E base)) = Some sds"
    and "unat h = Suc (unat (hd_height (state_header E base)))"
  shows "unat (weight_of m pk) =
    (\<Sum>sd\<leftarrow>filter (\<lambda>sd. active_at (epoch E h) sd \<and> sd_pubkey sd = pk) sds.
       unat (sd_syms_staked sd) mod 2 ^ 64)"
  using vote_weights_Ok [OF assms] by (simp add: low_stake_def)

text \<open>C30: Stakers cannot corrupt the chain: through any number of starts and rounds, whatever the
  consensus algorithm decides in each, whatever the neighbours answer and whenever blocks arrive
  in the meantime, the staker leaves the storage invariant and every stored block as they were.\<close>

theorem staker_never_corrupts:
  assumes "ext_ok E" and "storage_inv E s"
    and "\<forall>(listens, rds)\<in>set attempts. \<forall>rd\<in>set rds. benign_round E rd"
    and "network_task E X cfg attempts s = (r, s')"
  shows "storage_inv E s' \<and>
    (\<forall>h b. block_at E (db s) h = Some b \<longrightarrow> block_at E (db s') h = Some b)"
  using network_task_keeps [OF assms(1,3,2,4)] by (simp add: keeps_def)

text \<open>C31: Honest signatures commit: when no neighbour answers for a while and then one sends signatures
  that, merged into those gathered, hold enough votes, and the storage accepts the decided block
  with them, the round ends with the block as the new tip.\<close>

theorem gathered_votes_commit:
  assumes "ext_ok E" and "storage_inv E (sk_storage y)"
    and "commit_step E base threshold decision y = (Ok False, y1)" and "h = height_of decision"
    and "m = fold (\<lambda>(k, v). AList.update k v) answer (gather_entry h (sig_gather y))"
    and "checked_sum 0 (map (\<lambda>(pk, _). ss_votes E (raw_stakes E base)
      (epoch E (hd_height (state_header E base))) pk) m) = Ok votes" and "threshold < votes"
    and "apply_block E decision m (sk_storage y) = (Ok (), s')"
  shows "\<exists>y'. commit_loop E base threshold decision h
      (map (\<lambda>noticed. (None, noticed, \<lambda>s. s)) ns @ (Some answer, noticed, \<lambda>s. s) # neighs) y = (Ok True, y') \<and>
    sk_storage y' = s' \<and> block_at E (db s') h = Some decision \<and> highest_height s' = h"
proof -
  note same = commit_step_same [OF assms(3)]
  have reads: "block_at E (db s') h = Some decision" and top: "highest_height s' = h"
    and new: "get_state E h (sk_storage y) = (Ok None, sk_storage y)"
    using apply_block_next [OF assms(1,2,8)] assms(4) by simp_all
  have m: "m = fold (\<lambda>(k, v). AList.update k v) answer (gather_entry h (sig_gather y1))"
    by (simp add: commit_step_gather [OF assms(3)] assms(4,5))
  have ap: "apply_block E decision m (sk_storage y1) = (Ok (), s')" using assms(8) same by simp
  from commit_loop_enough [OF commit_step_again [OF assms(3)] assms(4) m assms(6,7) ap] new same
  obtain y' where "commit_loop E base threshold decision h ((Some answer, noticed, \<lambda>s. s) # neighs) y1 = (Ok True, y')"
    and "sk_storage y' = s'" by auto
  with commit_loop_silent [OF assms(3) new] reads top show ?thesis by auto
qed

text \<open>C33: One neighbour can spoil a round: the signatures it sends are put into the map unverified, over
  those that are there.  If its keys hold enough votes the gathering ends, \<^verbatim>\<open>apply_block\<close>
  rejects the proof, the error is only logged, and the round is over with nothing committed,
  whatever the other neighbours would have sent.\<close>

theorem forged_signatures_end_round:
  assumes "ext_ok E" and "storage_inv E (sk_storage y)" and "tip_state E (sk_storage y) = Ok base"
    and "commit_step E base threshold decision y = (Ok False, y1)"
    and "h = height_of decision" and "unat h = Suc (unat (highest_height (sk_storage y)))"
    and "m = fold (\<lambda>(k, v). AList.update k v) forged (gather_entry h (sig_gather y))"
    and "checked_sum 0 (map (\<lambda>(pk, _). ss_votes E (raw_stakes E base)
      (epoch E (hd_height (state_header E base))) pk) m) = Ok votes" and "threshold < votes"
    and "check_block E decision m base = Err e" and "sql_bindable E h"
  shows "\<exists>y'. commit_loop E base threshold decision h ((Some forged, noticed, \<lambda>s. s) # neighs) y = (Ok True, y') \<and>
    db (sk_storage y') = db (sk_storage y)"
proof -
  from highest_state_spec [OF assms(1,2)] assms(3) obtain c
    where "highest_state E (sk_storage y) = (Ok base, (sk_storage y)\<lparr>old_cache := c\<rparr>)" by auto
  then have ap: "apply_block E decision m (sk_storage y) = (Err e, (sk_storage y)\<lparr>old_cache := c\<rparr>)"
    using assms(10) by (simp add: apply_block_def)
  have new: "get_state E h (sk_storage y) = (Ok None, sk_storage y)"
    by (rule get_state_next [OF assms(1,2,11,6)])
  from commit_loop_enough [OF assms(4,5,7-9) ap _ new, where neighs = neighs and noticed = noticed] show ?thesis by auto
qed

text \<open>C34: The gatherer stays small on a chain that grows one block at a time: if before a round at tip
  \<open>n\<close> it has entries for heights of the last ten blocks and the next one only, then also
  after the round, whether the tip has moved or not.\<close>

theorem gatherer_window:
  assumes "ext_ok E" and "storage_inv E (sk_storage y)" and "tip_state E (sk_storage y) = Ok base"
    and "n = hd_height (state_header E base)" and "unat n < 2 ^ 64 - 1"
    and "\<forall>k\<in>heights (sig_gather y). 1 \<le> unat k \<and> unat n \<le> unat k + 9 \<and> unat k \<le> Suc (unat n)"
    and "\<forall>nonce p d b. rd_decide rd nonce p = Some d \<and> dec_block E d = Some b \<longrightarrow> height_of b = n + 1"
    and "staker_round E X cfg rd y = (Ok v, y')"
    and "k \<in> heights (sig_gather y')"
  shows "1 \<le> unat k \<and> Suc (unat n) \<le> unat k + 9 \<and> unat k \<le> Suc (unat n)"
proof -
  have suc: "unat (n + 1) = Suc (unat n)" by (rule unat_u64_Suc [OF assms(5)])
  from highest_state_spec [OF assms(1,2)] assms(3) obtain c
    where hs: "highest_state E (sk_storage y) = (Ok base, (sk_storage y)\<lparr>old_cache := c\<rparr>)" by auto
  have next_h: "checked_add n 1 = Ok (n + 1)" using suc by (simp add: checked_add_Ok_iff)
  have "heights (sig_gather y') \<subseteq> insert (n + 1) (heights (gather_remove (n + 1) (sig_gather y)))"
    using assms(8)
  proof (cases rule: staker_round_start)
    case (starts base' s h)
    with hs next_h assms(4) have eqs: "base' = base" "h = n + 1" by simp_all
    show ?thesis
      using decide_round_heights [OF _ assms(7)] starts(3) unfolding eqs by fastforce
  qed blast
  with assms(9) have "k = n + 1 \<or> k \<in> heights (gather_remove (n + 1) (sig_gather y))"
    by auto
  then show ?thesis
  proof
    assume "k = n + 1" then show ?thesis using suc by simp
  next
    assume k: "k \<in> heights (gather_remove (n + 1) (sig_gather y))"
    show ?thesis
    proof (cases "10 < n + 1")
      case True
      then have ten: "10 < Suc (unat n)" using suc by (simp add: word_less_nat_alt)
      have "unat (n + 1 - 10) = Suc (unat n) - 10"
        using True suc by (subst unat_sub) (simp_all add: word_le_nat_alt word_less_nat_alt)
      moreover from k True have "k \<noteq> n + 1 - 10" and "k \<in> heights (sig_gather y)"
        by (auto simp: gather_remove_def delete_conv' split: if_splits)
      moreover from this(2) assms(6) have "1 \<le> unat k \<and> unat n \<le> unat k + 9 \<and> unat k \<le> Suc (unat n)"
        by blast
      ultimately show ?thesis using ten by (simp add: word_unat_eq_iff del: One_nat_def) linarith
    next
      case False
      then have "Suc (unat n) \<le> 10" using suc by (simp add: word_less_nat_alt)
      moreover from False k have "k \<in> heights (sig_gather y)" by (simp add: gather_remove_def)
      with assms(6) have "1 \<le> unat k \<and> unat n \<le> unat k + 9 \<and> unat k \<le> Suc (unat n)" by blast
      ultimately show ?thesis by linarith
    qed
  qed
qed

text \<open>The schedule of the main network: the time of a height is thirty seconds after that of the
  height before, as long as the products fit 64 bits and the sums the clock; beyond that the
  staker aborts.\<close>

theorem mainnet_schedule:
  assumes "unat h < 2 ^ 58 - 1"
  shows "\<exists>t. height_to_time now Mainnet h = Ok t \<and>
      height_to_time now Mainnet (h + 1) = Ok (t + 30 * 10 ^ 9) \<and>
    (\<forall>h'. 2 ^ 64 \<le> 30 * unat h' \<longrightarrow> height_to_time now Mainnet h' = Panic Overflow)"
proof -
  have suc: "unat (h + 1) = Suc (unat h)" using assms by (intro unat_u64_Suc) simp
  have "unat (h * 30) = unat h * 30" "unat ((h + 1) * 30) = Suc (unat h) * 30"
    using assms suc by (auto simp: unat_word_ariths)
  then show ?thesis
    using assms suc
    by (auto simp: height_to_time_def checked_mul_def time_add_def MAINNET_START_TIME_def mult.commute)
qed

section \<open>Witnesses\<close>

text \<open>The staker of the demo chain is the one with the small stake, key 2.\<close>

definition demo_signer :: signer where
  "demo_signer = \<lparr>to_public = (\<lambda>sk. of_nat (length sk)), sign = (\<lambda>sk h. demo_sig (of_nat (length sk)) h)\<rparr>"

definition demo_cfg :: staker_config where
  "demo_cfg = \<lparr>signing_secret = [0, 0], sc_listen = SockAddr ''127.0.0.1'' 5001,
     sc_bootstrap = SockAddr ''127.0.0.1'' 5000, payout_addr = 7,
     target_fee_multiplier = 10000\<rparr>"

definition demo_staker :: "(nat, demo_unsealed) staker" where
  "demo_staker =
     \<lparr>sig_gather = gather_own demo demo_signer (signing_secret demo_cfg) (demo_block 1 2) [],
      sk_storage = demo_storage\<rparr>"

lemma demo_weights:
  "vote_weights demo demo_tip0 = Ok [(1, 1000000), (2, 1)]"
  by (simp add: vote_weights_def demo_tip0_def demo_header_def demo_genesis_def checked_add_def
      weight_of_def demo_doc_def)

lemma demo_tip0_docs:
  "decode_docs demo (pre_tip911 demo (raw_stakes demo demo_tip0)) = Some ([demo_doc 1 1000000] @ [demo_doc 2 1])"
  by (simp add: demo_tip0_def demo_genesis_def)

lemma unat_sum_list:
  "sum_list (map unat xs) < 2 ^ LENGTH('a) \<Longrightarrow> unat (sum_list xs) = sum_list (map unat xs)"
  for xs :: "'a::len word list"
  by (induction xs) (auto simp: unat_add_lem [THEN iffD1])

lemma demo_stake_sum:
  "stake_sum (filter P (map snd k)) < 2 ^ 128 \<Longrightarrow>
   unat (\<Sum>(t, d)\<leftarrow>k. if P d then sd_syms_staked d else 0) = stake_sum (filter P (map snd k))"
proof -
  have sum: "stake_sum (filter P (map snd k)) =
      sum_list (map unat (map (\<lambda>(t, d). if P d then sd_syms_staked d else 0) k))"
    by (induction k) auto
  assume "stake_sum (filter P (map snd k)) < 2 ^ 128"
  then show ?thesis
    unfolding sum by (intro unat_sum_list) simp
qed

lemma demo_docs_of:
  "decode_docs demo (pre_tip911 demo k) = Some (map snd k)"
  by (induction k) (auto simp: case_prod_beta)

lemma demo_votes_law: "votes_law demo"
  unfolding votes_law_def demo_docs_of
  using demo_stake_sum [where P = "active_at _"] demo_stake_sum [where P = "\<lambda>sd. active_at _ sd \<and> sd_pubkey sd = _"]
  by (auto simp: active_at_def conj_commute conj_left_commute)

text \<open>The last block of an epoch, with a stake that counts from the next one on.\<close>

definition demo_last :: demo_state where
  "demo_last = \<lparr>ds_header = demo_header 199999 2, ds_txs = [],
     ds_stakes = [(0, (demo_doc 1 5)\<lparr>sd_e_start := 1\<rparr>)]\<rparr>"

definition demo_gathered :: "u64 \<Rightarrow> gather" where
  "demo_gathered h = [(h, demo_cproof h)]"

lemma demo_last_weights: "vote_weights demo demo_last = Ok [(1, 5)]"
  by (simp add: vote_weights_def demo_last_def demo_header_def checked_add_def weight_of_def demo_doc_def)

lemma demo_last_docs:
  "decode_docs demo (pre_tip911 demo (raw_stakes demo demo_last)) = Some [(demo_doc 1 5)\<lparr>sd_e_start := 1\<rparr>]"
  by (simp add: demo_last_def)

lemma demo_threshold: "vote_threshold demo demo_tip0 = Ok 666667"
  by (simp add: vote_threshold_def demo_tip0_def demo_header_def demo_genesis_def checked_mul_def demo_doc_def)

theorem consensus_quorum_commits_witness:
  "check_quorum demo (b_header (demo_block 1 2)) (demo_cproof 1)
     (pre_tip911 demo (raw_stakes demo demo_tip0)) = Ok () \<and>
   fst (get_proof demo demo_tip0 666667 1 (demo_gathered 1)) = Ok (Some (demo_cproof 1)) \<and>
   check_quorum demo (b_header (demo_block 200000 2)) (demo_cproof 200000)
     (pre_tip911 demo (raw_stakes demo demo_last)) = Ok () \<and>
   fst (get_proof demo demo_last 0 200000 (demo_gathered 200000)) = Ok None"
proof -
  have h: "height_of (demo_block k 2) = k" for k by (simp add: demo_block_def demo_header_def)
  have entry: "demo_cproof k = gather_entry (height_of (demo_block k 2)) (demo_gathered k)" for k
    by (simp add: h demo_gathered_def gather_entry_def)
  have keys: "distinct (map fst (demo_cproof k))" for k by (simp add: demo_cproof_def)
  have first: "check_quorum demo (b_header (demo_block 1 2)) (demo_cproof 1)
      (pre_tip911 demo (raw_stakes demo demo_tip0)) = Ok () \<and>
    (epoch demo (height_of (demo_block 1 2)) = epoch demo (hd_height (state_header demo demo_tip0)) \<longrightarrow>
      (\<exists>th. vote_threshold demo demo_tip0 = Ok th \<and>
        fst (get_proof demo demo_tip0 th (height_of (demo_block 1 2)) (demo_gathered 1)) = Ok (Some (demo_cproof 1))))"
    using consensus_quorum_commits [OF demo_votes_law demo_weights demo_tip0_docs _ _ _ entry [of 1] keys, of "{1}"]
      demo_votes_fit
    by (simp add: demo_block_def demo_tip0_def demo_cproof_def demo_header_def weight_of_def)
  have boundary: "check_quorum demo (b_header (demo_block 200000 2)) (demo_cproof 200000)
      (pre_tip911 demo (raw_stakes demo demo_last)) = Ok () \<and>
    ((\<forall>sd\<in>set [(demo_doc 1 5)\<lparr>sd_e_start := 1\<rparr>].
        active_at (epoch demo (hd_height (state_header demo demo_last))) sd \<longrightarrow>
        map_of (demo_cproof 200000) (sd_pubkey sd) = None) \<longrightarrow>
      (\<forall>th. fst (get_proof demo demo_last th (height_of (demo_block 200000 2)) (demo_gathered 200000)) = Ok None))"
    using consensus_quorum_commits [OF demo_votes_law demo_last_weights demo_last_docs _ _ _ entry [of 200000] keys,
        of "{1}"]
    by (simp add: demo_block_def demo_last_def demo_cproof_def demo_header_def weight_of_def votes_fit_def
        total_spec_def)
  have one: "epoch demo (height_of (demo_block 1 2)) = epoch demo (hd_height (state_header demo demo_tip0))"
    by (simp add: h demo_tip0_def demo_header_def)
  have new: "\<forall>sd\<in>set [(demo_doc 1 5)\<lparr>sd_e_start := 1\<rparr>].
      active_at (epoch demo (hd_height (state_header demo demo_last))) sd \<longrightarrow>
      map_of (demo_cproof 200000) (sd_pubkey sd) = None"
    by (simp add: active_at_def demo_last_def demo_header_def)
  from first [THEN conjunct2, rule_format, OF one] demo_threshold
  have "fst (get_proof demo demo_tip0 666667 1 (demo_gathered 1)) = Ok (Some (demo_cproof 1))"
    by (auto simp: h simp del: demo_fields)
  with first [THEN conjunct1] boundary [THEN conjunct1] mp [OF boundary [THEN conjunct2] new, THEN spec, of 0]
  show ?thesis by (simp add: h del: demo_fields)
qed

theorem vote_weights_keep_low_bits_witness:
  "unat (weight_of [(1, 1000000), (2, 1)] 1) = (1000000::nat)"
  by (simp add: vote_weights_keep_low_bits [OF demo_weights demo_tip0_docs, of 1 1]
      demo_tip0_def active_at_def demo_doc_def demo_header_def)

lemma demo_benign: "benign demo (\<lambda>s. s)"
  by (simp add: benign_def keeps_refl)

text \<open>The consensus decides on the demo block, whatever is proposed.\<close>

definition demo_decide :: "u128 \<Rightarrow> bytes \<Rightarrow> bytes option" where
  "demo_decide nonce p = Some (put_block (demo_block 1 2))"

lemma demo_staker_storage [simp]: "sk_storage demo_staker = demo_storage"
  by (simp add: demo_staker_def)

definition demo_round :: "(nat, demo_unsealed) round" where
  "demo_round = \<lparr>rd_now = 0, rd_meanwhile = (\<lambda>s. s), rd_during = (\<lambda>s. s), rd_noticed = True, rd_decide = demo_decide,
     rd_neighs = [(None, False, \<lambda>s. s), (Some (demo_cproof 1), True, \<lambda>s. s)]\<rparr>"

theorem staker_never_corrupts_witness:
  "storage_inv demo (snd (network_task demo demo_signer demo_cfg
     [(False, []), (True, replicate 2 demo_round)] demo_storage))"
proof -
  have "\<forall>(listens, rds)\<in>set [(False, []), (True, replicate 2 demo_round)]. \<forall>rd\<in>set rds. benign_round demo rd"
    using demo_benign by (simp add: demo_round_def benign_round_def)
  then show ?thesis
    by (rule staker_never_corrupts [OF demo_ext_ok demo_storage_inv _ prod.collapse [symmetric], THEN conjunct1])
qed

text \<open>A neighbour sends empty signatures for both keys.\<close>

lemma demo_own: "gather_entry 1 (sig_gather demo_staker) = [(2, demo_sig 2 1)]"
  by (simp add: demo_staker_def gather_own_def gather_entry_def demo_signer_def demo_cfg_def
      demo_block_def demo_header_def)

lemma demo_not_enough:
  "fst (commit_step demo demo_tip0 666667 (demo_block 1 2) demo_staker) = Ok False"
proof -
  have "fst (get_proof demo demo_tip0 666667 1 (sig_gather demo_staker)) = Ok None"
    by (simp add: get_proof_def demo_own Let_def)
      (simp add: demo_tip0_def demo_genesis_def demo_header_def demo_doc_def checked_add_def)
  moreover have "height_of (demo_block 1 2) = 1" by (simp add: demo_block_def demo_header_def)
  ultimately show ?thesis
    by (cases "get_proof demo demo_tip0 666667 1 (sig_gather demo_staker)") (simp add: commit_step_def)
qed

lemma demo_forged_check:
  "check_block demo (demo_block 1 2) [(2, []), (1, [])] demo_tip0 = Err (InsufficientVotes 1 0 1000001)"
  by (simp add: check_block_def demo_tip0_def check_quorum_def demo_header_def demo_block_def
      checked_add_def checked_mul_def demo_genesis_def demo_doc_def is_active_def has_signed_def demo_sig_def)

theorem forged_signatures_end_round_witness:
  "\<exists>y'. commit_loop demo demo_tip0 666667 (demo_block 1 2) 1
      [(Some [(1, []), (2, [])], True, \<lambda>s. s), (Some (demo_cproof 1), True, \<lambda>s. s)] demo_staker = (Ok True, y') \<and>
    db (sk_storage y') = db demo_storage"
proof -
  obtain y1 where y1: "commit_step demo demo_tip0 666667 (demo_block 1 2) demo_staker = (Ok False, y1)"
    using demo_not_enough by (metis prod.collapse)
  have tip: "tip_state demo (sk_storage demo_staker) = Ok demo_tip0" by (simp add: demo_tip)
  have inv: "storage_inv demo (sk_storage demo_staker)" by (simp add: demo_storage_inv)
  have h: "1 = height_of (demo_block 1 2)" by (simp add: demo_block_def demo_header_def)
  have m: "[(2, []), (1, [])] =
      fold (\<lambda>(k, v). AList.update k v) [(1, []), (2, [])] (gather_entry 1 (sig_gather demo_staker))"
    by (simp add: demo_own)
  have votes: "checked_sum 0 (map (\<lambda>(pk, _). ss_votes demo (raw_stakes demo demo_tip0)
      (epoch demo (hd_height (state_header demo demo_tip0))) pk) [(2, []), (1, [])]) = Ok 1000001"
    by (simp add: demo_tip0_def demo_genesis_def demo_header_def demo_doc_def checked_add_def)
  have "unat (1::u64) = Suc (unat (highest_height (sk_storage demo_staker)))" by (simp add: demo_highest)
  from forged_signatures_end_round [OF demo_ext_ok inv tip y1 h this m votes _ demo_forged_check]
  show ?thesis by simp
qed

text \<open>Another neighbour has the signature of the large stake.\<close>

lemma demo_apply_both:
  "fst (apply_block demo (demo_block 1 2) [(2, demo_sig 2 1), (1, demo_sig 1 1)] demo_storage) = Ok ()"
  by (simp add: demo_storage_defs demo_run_defs Let_def)

theorem gathered_votes_commit_witness:
  "\<exists>y' s'. commit_loop demo demo_tip0 666667 (demo_block 1 2) 1
      [(None, False, \<lambda>s. s), (None, True, \<lambda>s. s), (Some (demo_cproof 1), True, \<lambda>s. s)] demo_staker = (Ok True, y') \<and>
    sk_storage y' = s' \<and> block_at demo (db s') 1 = Some (demo_block 1 2) \<and> highest_height s' = 1"
proof -
  obtain y1 where y1: "commit_step demo demo_tip0 666667 (demo_block 1 2) demo_staker = (Ok False, y1)"
    using demo_not_enough by (metis prod.collapse)
  have inv: "storage_inv demo (sk_storage demo_staker)" by (simp add: demo_storage_inv)
  have h: "1 = height_of (demo_block 1 2)" by (simp add: demo_block_def demo_header_def)
  have m: "[(2, demo_sig 2 1), (1, demo_sig 1 1)] =
      fold (\<lambda>(k, v). AList.update k v) (demo_cproof 1) (gather_entry 1 (sig_gather demo_staker))"
    by (simp add: demo_own demo_cproof_def)
  have votes: "checked_sum 0 (map (\<lambda>(pk, _). ss_votes demo (raw_stakes demo demo_tip0)
      (epoch demo (hd_height (state_header demo demo_tip0))) pk)
      [(2, demo_sig 2 1), (1, demo_sig 1 1)]) = Ok 1000001"
    by (simp add: demo_tip0_def demo_genesis_def demo_header_def demo_doc_def checked_add_def)
  obtain s' where "apply_block demo (demo_block 1 2) [(2, demo_sig 2 1), (1, demo_sig 1 1)]
      (sk_storage demo_staker) = (Ok (), s')"
    using demo_apply_both by (metis demo_staker_storage prod.collapse)
  from gathered_votes_commit [OF demo_ext_ok inv y1 h m votes _ this, where ns = "[False, True]" and noticed = True
      and neighs = "[]"]
  show ?thesis by auto
qed

lemma demo_round_ok:
  "fst (staker_round demo demo_signer demo_cfg demo_round demo_staker) = Ok True"
proof -
  obtain c where c: "highest_state demo demo_storage = (Ok demo_tip0, demo_storage\<lparr>old_cache := c\<rparr>)"
    using highest_state_spec [OF demo_ext_ok demo_storage_inv] by (auto simp: demo_tip)
  have "hd_height (du_header (provisional_state (st_mempool demo_storage))) = 0"
    by (simp add: demo_storage_defs Let_def)
  then have "fst (propose demo demo_cfg demo_tip0 1 y) = None" if "sk_storage y = demo_storage\<lparr>old_cache := c\<rparr>" for y
    using that by (simp add: propose_def to_state_def Let_def)
  then have "fst (decide_round demo demo_signer demo_cfg demo_round demo_tip0 1 y) = Ok True"
    if "sk_storage y = demo_storage\<lparr>old_cache := c\<rparr>" for y
    using that by (cases "propose demo demo_cfg demo_tip0 1 y") (force simp: decide_round_def)
  with c show ?thesis
    by (simp add: staker_round_def elapse_def demo_round_def checked_add_def height_to_time_def
        demo_tip0_def demo_header_def)
qed

theorem gatherer_window_witness:
  "heights (sig_gather (snd (staker_round demo demo_signer demo_cfg demo_round demo_staker)))
    \<subseteq> {k. 1 \<le> unat k \<and> unat k \<le> 1}"
proof
  fix k
  assume k: "k \<in> heights (sig_gather (snd
    (staker_round demo demo_signer demo_cfg demo_round demo_staker)))"
  have run: "staker_round demo demo_signer demo_cfg demo_round demo_staker =
      (Ok True, snd (staker_round demo demo_signer demo_cfg demo_round demo_staker))"
    by (rule prod_eqI) (simp_all add: demo_round_ok)
  have tip: "tip_state demo (sk_storage demo_staker) = Ok demo_tip0" by (simp add: demo_tip)
  have inv: "storage_inv demo (sk_storage demo_staker)" by (simp add: demo_storage_inv)
  have n: "0 = hd_height (state_header demo demo_tip0)" by (simp add: demo_tip0_def demo_header_def)
  have win: "\<forall>k\<in>heights (sig_gather demo_staker). 1 \<le> unat k \<and> unat (0::u64) \<le> unat k + 9 \<and> unat k \<le> Suc (unat (0::u64))"
    by (simp add: demo_staker_def gather_own_def demo_block_def demo_header_def split: if_splits)
  have dec: "\<forall>nonce p d b. rd_decide demo_round nonce p = Some d \<and> dec_block demo d = Some b \<longrightarrow> height_of b = 0 + 1"
    by (auto simp: demo_round_def demo_decide_def demo_block_def demo_header_def)
  from gatherer_window [OF demo_ext_ok inv tip n _ win dec run k]
  show "k \<in> {k. 1 \<le> unat k \<and> unat k \<le> 1}" by simp
qed

theorem mainnet_schedule_witness:
  "\<exists>t. height_to_time 0 Mainnet 1 = Ok t \<and> height_to_time 0 Mainnet 2 = Ok (t + 30 * 10 ^ 9)"
  using mainnet_schedule [of 1 0] by auto

end
