(* ===== verification/Args.thy ===== *)
theory Args
  imports Staker
begin

text \<open>
  \<^verbatim>\<open>src/args.rs\<close>: the command line and what is derived from it.  The operating system and
  the parsers of the configuration files are the record \<open>os\<close>.  \<^verbatim>\<open>genesis_config\<close> is
  called anew wherever the source calls it; a file is taken to read the same each time.
\<close>

record main_args =
  listen :: sock_addr
  legacy_listen :: "sock_addr option"
  advertise :: "sock_addr option"
  ar_bootstrap :: "string list"
  database :: "string option"
  ar_staker_cfg :: "string option"
  override_genesis :: "string option"
  testnet :: bool
  self_test :: bool
  index_coins :: bool

text \<open>
  \<open>disk\<close> is what \<^verbatim>\<open>Storage::open\<close> finds at the path of the database: the tables, empty if
  they have to be created, and the forest beside them; \<open>None\<close> if it cannot be opened.
\<close>

record 'f os =
  read_file :: "string \<Rightarrow> bytes option"
  parse_genesis :: "bytes \<Rightarrow> genesis_config option"
  parse_staker_config :: "bytes \<Rightarrow> staker_config option"
  std_testnet :: genesis_config
  std_mainnet :: genesis_config
  home_dir :: "string option"
  create_dir_all :: "string \<Rightarrow> bool"
  disk :: "string \<Rightarrow> (tables \<times> 'f) option"
  resolve :: "string \<Rightarrow> sock_addr list option"
  bootstrap_routes :: "netid \<Rightarrow> sock_addr list"

section \<open>Defaults\<close>

text \<open>The defaults of the command line.\<close>

definition default_args :: main_args where
  "default_args =
     \<lparr>listen = SockAddr ''0.0.0.0'' 41814, legacy_listen = None, advertise = None,
      ar_bootstrap = [''auto''], database = None, ar_staker_cfg = None, override_genesis = None,
      testnet = False, self_test = False, index_coins = False\<rparr>"

definition advertise_addr :: "main_args \<Rightarrow> sock_addr option" where
  "advertise_addr a = advertise a"

definition listen_addr :: "main_args \<Rightarrow> sock_addr" where
  "listen_addr a = listen a"

definition legacy_listen_addr :: "main_args \<Rightarrow> sock_addr option" where
  "legacy_listen_addr a = legacy_listen a"

section \<open>Derived configuration\<close>

definition genesis_config_of :: "('f, 'z) os_scheme \<Rightarrow> main_args \<Rightarrow> genesis_config res" where
  "genesis_config_of os a =
     (case override_genesis a of
        Some path \<Rightarrow>
          bind_res (context_res ''cannot read genesis config'' (option_to_res IoError (read_file os path)))
            (\<lambda>genesis_yaml.
               context_res ''error while parsing genesis config''
                 (option_to_res ParseError (parse_genesis os genesis_yaml)))
      | None \<Rightarrow> if testnet a then Ok (std_testnet os) else Ok (std_mainnet os))"

definition storage_path ::
    "('f, 's, 'u, 'k, 'x) ext_scheme \<Rightarrow> string \<Rightarrow> genesis_config \<Rightarrow> string" where
  "storage_path E db_folder g =
     path_push (path_push db_folder (hex_encode E (hash_single E (enc_genesis E g)) @ ''/''))
       ''storage.db''"

text \<open>
  \<^verbatim>\<open>MainArgs::storage\<close>.  The home directory is asked for even if a database path is
  given.
\<close>

definition storage_of ::
    "('f, 's, 'u, 'k, 'x) ext_scheme \<Rightarrow> ('f, 'z) os_scheme \<Rightarrow> main_args \<Rightarrow> ('f, 'u) storage res" where
  "storage_of E os a =
     bind_res (genesis_config_of os a) (\<lambda>g.
     case home_dir os of
       None \<Rightarrow> Panic ExpectFailed
     | Some p \<Rightarrow>
         let database_default_path = path_push p ''.melnode/'';
             database_base_path =
               (case database a of Some d \<Rightarrow> d | None \<Rightarrow> database_default_path)
         in if create_dir_all os database_base_path then
              (case disk os (storage_path E database_base_path g) of
                 Some (d, f) \<Rightarrow> Ok (storage_open E database_base_path g d f)
               | None \<Rightarrow> Err (Context ''cannot make storage'' IoError))
            else Err IoError)"

text \<open>One bootstrap name.\<close>

definition bootstrap_name ::
    "('f, 'z) os_scheme \<Rightarrow> main_args \<Rightarrow> string \<Rightarrow> sock_addr list res" where
  "bootstrap_name os a name =
     (if name = ''auto'' then
        bind_res (genesis_config_of os a) (\<lambda>g. Ok (bootstrap_routes os (gc_network g)))
      else context_res ''cannot resolve DNS bootstrap'' (option_to_res DnsError (resolve os name)))"

fun bootstrap_loop ::
    "('f, 'z) os_scheme \<Rightarrow> main_args \<Rightarrow> string list \<Rightarrow> sock_addr list \<Rightarrow> sock_addr list res" where
  "bootstrap_loop os a [] bootstrap = Ok bootstrap"
| "bootstrap_loop os a (name # names) bootstrap =
     bind_res (bootstrap_name os a name) (\<lambda>addrs. bootstrap_loop os a names (bootstrap @ addrs))"

definition bootstrap_of :: "('f, 'z) os_scheme \<Rightarrow> main_args \<Rightarrow> sock_addr list res" where
  "bootstrap_of os a =
     (if ar_bootstrap a \<noteq> [] then bootstrap_loop os a (ar_bootstrap a) []
      else bind_res (genesis_config_of os a) (\<lambda>g. Ok (bootstrap_routes os (gc_network g))))"

definition staker_cfg_of :: "('f, 'z) os_scheme \<Rightarrow> main_args \<Rightarrow> staker_config option res" where
  "staker_cfg_of os a =
     (case ar_staker_cfg a of
        Some path \<Rightarrow>
          bind_res (option_to_res IoError (read_file os path)) (\<lambda>s.
          bind_res (option_to_res ParseError (parse_staker_config os s)) (\<lambda>lele. Ok (Some lele)))
      | None \<Rightarrow> Ok None)"

section \<open>What is derived\<close>

lemma genesis_config_known:
  "override_genesis a = None \<Longrightarrow>
   genesis_config_of os a = Ok (if testnet a then std_testnet os else std_mainnet os)"
  by (simp add: genesis_config_of_def)

lemma storage_path_open: "sqlite_path (storage_open E folder g d f) = storage_path E folder g"
  by (simp add: storage_open_def storage_path_def Let_def)

lemma storage_of_Ok:
  assumes "storage_of E os a = Ok s"
  obtains g p d f where "genesis_config_of os a = Ok g" and "home_dir os = Some p"
    and "disk os (sqlite_path s) = Some (d, f)"
    and "s = storage_open E (case database a of Some d \<Rightarrow> d | None \<Rightarrow> path_push p ''.melnode/'') g d f"
proof -
  from assms obtain g p where gp: "genesis_config_of os a = Ok g" "home_dir os = Some p"
    by (auto simp: storage_of_def bind_res_Ok_iff split: option.splits)
  let ?base = "case database a of Some d \<Rightarrow> d | None \<Rightarrow> path_push p ''.melnode/''"
  from assms gp obtain d f where "disk os (storage_path E ?base g) = Some (d, f)"
    and "s = storage_open E ?base g d f"
    by (auto simp: storage_of_def Let_def split: if_splits option.splits prod.splits)
  with gp show thesis by (intro that) (simp_all add: storage_path_open)
qed

text \<open>The addresses of the names, in order; one failure fails all.\<close>

lemma bootstrap_loop_Ok:
  "bootstrap_loop os a names acc = Ok addrs \<longleftrightarrow>
    (\<exists>found. map (bootstrap_name os a) names = map Ok found \<and> addrs = acc @ concat found)"
proof (induction names arbitrary: acc)
  case (Cons name names)
  have "bootstrap_loop os a (name # names) acc = Ok addrs \<longleftrightarrow>
      (\<exists>as found. bootstrap_name os a name = Ok as \<and> map (bootstrap_name os a) names = map Ok found \<and>
         addrs = acc @ as @ concat found)"
    by (simp add: bind_res_Ok_iff Cons)
  also have "\<dots> \<longleftrightarrow> (\<exists>found. map (bootstrap_name os a) (name # names) = map Ok found \<and>
      addrs = acc @ concat found)"
    by (auto simp: Cons_eq_map_conv) (metis concat.simps(2) list.simps(9))
  finally show ?case .
qed auto

end
