(* ===== verification/Indexer.thy ===== *)
theory Indexer
  imports Args Node_Props
begin

text \<open>
  \<^verbatim>\<open>src/node/indexer.rs\<close> and how \<^verbatim>\<open>src/node.rs\<close> uses it: the coin index runs as a
  client of this very node, is told every second which tip to trust, and requests that need
  it wait until it has caught up.  The index itself (\<^verbatim>\<open>melblkidx\<close>) and its connection are
  parameters.
\<close>

section \<open>The wrapper\<close>

record checkpoint =
  cp_height :: u64
  cp_header_hash :: hashval

text \<open>The listening address, with the address part replaced.\<close>

definition localhost :: "sock_addr \<Rightarrow> sock_addr" where
  "localhost a = SockAddr ''127.0.0.1'' (sa_port a)"

definition indexer_start ::
    "(netid \<Rightarrow> sock_addr \<Rightarrow> 'c option) \<Rightarrow> (string \<Rightarrow> 'c \<Rightarrow> 'i option) \<Rightarrow> netid \<Rightarrow>
     ('f, 'u) storage \<Rightarrow> sock_addr \<Rightarrow> 'i res" where
  "indexer_start connect new_indexer netid s connect_addr =
     bind_res (option_to_res RpcFailed (connect netid (localhost connect_addr))) (\<lambda>client.
       context_res ''indexer failed to be created''
         (option_to_res IoError (new_indexer (get_indexer_path s) client)))"

text \<open>One turn of \<^verbatim>\<open>indexer_loop\<close>: what the client is told to trust.\<close>

definition indexer_round ::
    "('f, 's, 'u, 'k, 'x) ext_scheme \<Rightarrow> ('f, 'u) storage \<Rightarrow> checkpoint res \<times> ('f, 'u) storage" where
  "indexer_round E s =
     bind_st (highest_state E s) (\<lambda>trusted s.
       (Ok \<lparr>cp_height = hd_height (state_header E trusted),
            cp_header_hash = header_hash E (state_header E trusted)\<rparr>, s))"

section \<open>Waiting for the index\<close>

lemma indexer_wait_found:
  assumes "height \<le> max_height (k + n)"
  shows "\<exists>j. indexer_wait max_height height k = Some j \<and> height \<le> max_height j"
  using assms
proof (induction n arbitrary: k)
  case 0
  then show ?case by (subst indexer_wait.simps) auto
next
  case (Suc n)
  show ?case
  proof (cases "max_height k < height")
    case True
    with Suc.IH [of "Suc k"] Suc.prems show ?thesis
      by (subst indexer_wait.simps) simp
  next
    case False
    then show ?thesis by (subst indexer_wait.simps) auto
  qed
qed

lemma indexer_wait_Some:
  assumes "indexer_wait max_height height k = Some j"
  shows "height \<le> max_height j"
  by (rule indexer_wait.raw_induct [where P = "\<lambda>mh h k j. h \<le> mh j", OF _ assms])
    (auto simp: not_less split: if_splits)

lemma indexer_wait_iff:
  "(\<exists>j. indexer_wait max_height height 0 = Some j) \<longleftrightarrow> (\<exists>k. height \<le> max_height k)"
proof
  assume "\<exists>k. height \<le> max_height k"
  then obtain k where "height \<le> max_height k" by blast
  with indexer_wait_found [of height max_height 0 k] show "\<exists>j. indexer_wait max_height height 0 = Some j" by auto
qed (blast dest: indexer_wait_Some)

section \<open>Properties\<close>

text \<open>A request that needs the coin index returns exactly when the index gets, at some time, to the
  height that was the tip when the request came; an index that stays behind holds the request
  for ever.\<close>

theorem get_indexer_waits:
  "get_indexer (Some (ix, max_height)) n =
     (if \<exists>k. highest_height (nd_storage n) \<le> max_height k then Some (Some ix) else None)"
  using indexer_wait_iff [of max_height "highest_height (nd_storage n)"]
  by (cases "indexer_wait max_height (highest_height (nd_storage n)) 0") (auto simp: get_indexer_def)

text \<open>C38: The index is told to trust the node's own tip: the checkpoint names the highest stored height
  and the hash of the header stored there, and telling it changes nothing but the block
  cache.\<close>

theorem indexer_trusts_tip:
  assumes "ext_ok E" and "storage_inv E s" and "tip_state E s = Ok st" and "highest_height s \<noteq> 0"
  shows "\<exists>b c. block_at E (db s) (highest_height s) = Some b \<and>
    indexer_round E s = (Ok \<lparr>cp_height = highest_height s,
      cp_header_hash = header_hash E (b_header b)\<rparr>, s\<lparr>old_cache := c\<rparr>)"
proof -
  from highest_state_spec [OF assms(1,2)] assms(3) obtain c
    where "highest_state E s = (Ok st, s\<lparr>old_cache := c\<rparr>)" by auto
  with tip_header(1) [OF assms(1-3)] tip_header(2) [OF assms(1-4)] show ?thesis
    by (auto simp: indexer_round_def)
qed

theorem indexer_trusts_tip_witness:
  "\<exists>c. indexer_round demo demo_storage1 = (Ok \<lparr>cp_height = 1,
      cp_header_hash = header_hash demo (b_header (demo_block 1 2))\<rparr>, demo_storage1\<lparr>old_cache := c\<rparr>)"
proof -
  obtain st where st: "tip_state demo demo_storage1 = Ok st" using demo_tip1 by blast
  from indexer_trusts_tip [OF demo_ext_ok demo_storage1_inv st] demo_highest1 demo_block_at1
  show ?thesis by (auto simp del: demo_fields)
qed

end
