(* ===== verification/Startup.thy ===== *)
theory Startup
  imports Indexer
begin

text \<open>
  \<^verbatim>\<open>src/main.rs\<close> and \<^verbatim>\<open>Node::start\<close> of \<^verbatim>\<open>src/node.rs\<close>: how a node comes up, and the
  self-test that replays the chain.  The network is a parameter: whether listening succeeds,
  the connections of the index and of the self-test.
\<close>

section \<open>Starting\<close>

record ('c, 'i) net =
  can_listen :: "sock_addr \<Rightarrow> sock_addr option \<Rightarrow> bool"
  connect_http :: "netid \<Rightarrow> sock_addr \<Rightarrow> 'c option"
  new_indexer :: "string \<Rightarrow> 'c \<Rightarrow> 'i option"
  connect_self :: "sock_addr \<Rightarrow> bool"
  trust_latest :: "netid \<Rightarrow> sock_addr \<Rightarrow> bool"
  snapshot_latest :: "netid \<Rightarrow> sock_addr \<Rightarrow> bool"

text \<open>\<^verbatim>\<open>Node::start\<close>: the RPC server is made, with its index, and then listens.\<close>

definition start_node ::
    "('c, 'i, 'z) net_scheme \<Rightarrow> netid \<Rightarrow> sock_addr \<Rightarrow> sock_addr option \<Rightarrow> ('f, 'u) storage \<Rightarrow> bool \<Rightarrow>
     (('f, 'u, 't) node \<times> 'i option) res" where
  "start_node net netid listen_at advertise_at s with_index =
     bind_res
       (if with_index then
          bind_res (indexer_start (connect_http net) (new_indexer net) netid s listen_at) (\<lambda>i. Ok (Some i))
        else Ok None) (\<lambda>indexer.
     if can_listen net listen_at advertise_at then Ok (node_start netid s, indexer) else Err IoError)"

record ('f, 'u, 't, 'i) running =
  rn_node :: "('f, 'u, 't) node"
  rn_indexer :: "'i option"
  rn_routes :: "sock_addr list"
  rn_staker :: "staker_config option"
  rn_self_test :: bool

text \<open>\<^verbatim>\<open>main_async\<close> up to the point where it waits for ever.\<close>

definition main_async ::
    "('f, 's, 'u, 'k, 'x) ext_scheme \<Rightarrow> ('f, 'w) os_scheme \<Rightarrow> ('c, 'i, 'z) net_scheme \<Rightarrow> main_args \<Rightarrow>
     ('f, 'u, 't, 'i) running res" where
  "main_async E os net opt =
     bind_res (genesis_config_of os opt) (\<lambda>g.
     bind_res (storage_of E os opt) (\<lambda>s.
     bind_res (bootstrap_of os opt) (\<lambda>bootstrap.
     bind_res (start_node net (gc_network g) (listen_addr opt) (advertise_addr opt) s (index_coins opt))
       (\<lambda>(node, indexer).
     bind_res (staker_cfg_of os opt) (\<lambda>cfg.
     if self_test opt \<and> \<not> (connect_self net (listen_addr opt) \<and>
          trust_latest net (gc_network g) (listen_addr opt) \<and>
          snapshot_latest net (gc_network g) (listen_addr opt))
     then Panic ExpectFailed
     else Ok \<lparr>rn_node = node, rn_indexer = indexer, rn_routes = bootstrap, rn_staker = cfg,
              rn_self_test = self_test opt\<rparr>)))))"

section \<open>The self-test\<close>

text \<open>
  The checks of the coin index for one block; \<open>ask\<close> is the coin changes the node gives for
  a height and an address, \<open>None\<close> if the request fails or is refused.
\<close>

definition expect_add :: "coin_change list option \<Rightarrow> coin_id \<Rightarrow> unit res" where
  "expect_add changes coin =
     (case changes of
        None \<Rightarrow> Panic ExpectFailed
      | Some coin_changes \<Rightarrow> if Add coin \<in> set coin_changes then Ok () else Panic AssertFailed)"

definition check_index ::
    "('f, 's, 'u, 'k, 'x) ext_scheme \<Rightarrow> (u64 \<Rightarrow> hashval \<Rightarrow> coin_change list option) \<Rightarrow>
     (u64 \<Rightarrow> coin_id) \<Rightarrow> u64 \<Rightarrow> block \<Rightarrow> unit res" where
  "check_index E ask proposer_reward bh blk =
     bind_res
       (case transactions blk of
          [] \<Rightarrow> Ok ()
        | tx_0 # _ \<Rightarrow>
            (case outputs tx_0 of
               [] \<Rightarrow> Panic IndexOutOfRange
             | out # _ \<Rightarrow> expect_add (ask bh (cd_covhash out)) (hash_nosigs E tx_0, 0)))
       (\<lambda>_. case b_proposer_action blk of
              None \<Rightarrow> Ok ()
            | Some proposer_action \<Rightarrow>
                expect_add (ask bh (reward_dest proposer_action)) (proposer_reward bh))"

fun replay ::
    "('f, 's, 'u, 'k, 'x) ext_scheme \<Rightarrow> (u64 \<Rightarrow> block \<Rightarrow> unit res) \<Rightarrow> u64 list \<Rightarrow> 's \<Rightarrow>
     ('f, 'u) storage \<Rightarrow> 's res \<times> ('f, 'u) storage" where
  "replay E check [] state s = (Ok state, s)"
| "replay E check (bh # bhs) state s =
     bind_st (get_block E bh s) (\<lambda>oblk s.
     bind_st (option_to_res (Context ''no block'' (MissingBlock bh)) oblk, s) (\<lambda>blk s.
     case stf_apply_block E blk state (forest s) of
       (Ok state, f) \<Rightarrow>
         bind_st (check bh blk, s\<lparr>forest := f\<rparr>) (\<lambda>_ s. replay E check bhs state s)
     | (Err e, f) \<Rightarrow> (Panic ExpectFailed, s\<lparr>forest := f\<rparr>)
     | (Panic p, f) \<Rightarrow> (Panic p, s\<lparr>forest := f\<rparr>)))"

text \<open>One turn of the endless loop; an error ends the task, a panic the process.\<close>

definition self_test_round ::
    "('f, 's, 'u, 'k, 'x) ext_scheme \<Rightarrow> main_args \<Rightarrow> (u64 \<Rightarrow> hashval \<Rightarrow> coin_change list option) \<Rightarrow>
     (u64 \<Rightarrow> coin_id) \<Rightarrow> ('f, 'u) storage \<Rightarrow> 's res \<times> ('f, 'u) storage" where
  "self_test_round E opt ask proposer_reward s =
     bind_st (get_state E 9 s) (\<lambda>ostate s.
     bind_st (option_to_res (Context ''no block 1'' (MissingBlock 9)) ostate, s) (\<lambda>state s.
     replay E (if index_coins opt then check_index E ask proposer_reward else (\<lambda>_ _. Ok ()))
       (map of_nat [10..<Suc (unat (highest_height s))]) state s))"

section \<open>Replaying\<close>

text \<open>The state machine alone, over a list of blocks.\<close>

fun stf_run :: "('f, 's, 'u, 'k, 'x) ext_scheme \<Rightarrow> block list \<Rightarrow> 's \<Rightarrow> 'f \<Rightarrow> 's option" where
  "stf_run E [] st f = Some st"
| "stf_run E (b # bs) st f =
     (case stf_apply_block E b st f of
        (Ok st, f) \<Rightarrow> stf_run E bs st f
      | _ \<Rightarrow> None)"

lemma replay_Ok:
  assumes "ext_ok E"
  shows "storage_inv E s \<Longrightarrow> map Some bs = map (block_at E (db s)) hs \<Longrightarrow>
    (\<exists>s'. replay E check hs st s = (Ok st', s')) \<longleftrightarrow>
      stf_run E bs st (forest s) = Some st' \<and> list_all2 (\<lambda>h b. check h b = Ok ()) hs bs"
proof (induction hs arbitrary: bs st s)
  case Nil
  then show ?case by auto
next
  case (Cons h hs)
  then obtain b bs' where bs: "bs = b # bs'" and b: "block_at E (db s) h = Some b"
    and bs': "map Some bs' = map (block_at E (db s)) hs" by (auto simp: map_eq_Cons_conv)
  have "sql_bindable E h"
    using block_at_bindable [OF ext_okD(1) [OF assms] _ b] Cons.prems(1) by (simp add: storage_inv_def)
  with get_block_spec [OF assms Cons.prems(1), of h] b obtain c
    where c: "get_block E h s = (Ok (Some b), s\<lparr>old_cache := c\<rparr>)"
      and coh: "coherent (block_at E (db s)) c" by auto
  obtain r f where r: "stf_apply_block E b st (forest s) = (r, f)" by fastforce
  let ?s = "s\<lparr>old_cache := c, forest := f\<rparr>"
  have inv: "storage_inv E ?s" using Cons.prems(1) coh by (simp add: storage_inv_def)
  show ?case
  proof (cases r)
    case (Ok st1)
    have "(\<exists>s'. replay E check (h # hs) st s = (Ok st', s')) \<longleftrightarrow>
        check h b = Ok () \<and> (\<exists>s'. replay E check hs st1 ?s = (Ok st', s'))"
      using c r Ok by (cases "check h b") simp_all
    also have "\<dots> \<longleftrightarrow> check h b = Ok () \<and> stf_run E bs' st1 f = Some st' \<and>
        list_all2 (\<lambda>h b. check h b = Ok ()) hs bs'"
      using Cons.IH [OF inv, of bs'] bs' by simp
    finally show ?thesis using bs r Ok by auto
  qed (use c r bs in simp_all)
qed

lemma stored_heights_ex:
  assumes "ext_ok E" and "storage_inv E s"
    and "\<forall>h\<in>set hs. 1 \<le> unat h \<and> unat h \<le> unat (highest_height s)"
  obtains bs where "map Some bs = map (block_at E (db s)) hs"
proof -
  have inv: "tables_inv E (db s)" using assms(2) by (simp add: storage_inv_def)
  have "\<exists>b. block_at E (db s) h = Some b" if "h \<in> set hs" for h
    using assms(3) that block_at_ex [OF ext_okD(1) [OF assms(1)] inv, of h] highest_height_eq [OF inv]
    by simp
  then have "map Some (map (\<lambda>h. the (block_at E (db s) h)) hs) = map (block_at E (db s)) hs"
    by (auto simp: map_eq_conv)
  then show thesis by (rule that)
qed

section \<open>Properties\<close>

text \<open>C36: Without the index checks, a round of the self-test succeeds exactly when block 9 and its state
  are there and the state machine replays every later stored block in order from that state; the
  state it ends in is the one the state machine alone computes.\<close>

theorem self_test_replays_chain:
  assumes "ext_ok E" and "storage_inv E s" and "\<not> index_coins opt"
  shows "(\<exists>s'. self_test_round E opt ask reward s = (Ok st', s')) \<longleftrightarrow>
    (\<exists>st bs. state_at E s 9 = Ok (Some st) \<and>
       map Some bs = map (\<lambda>h. block_at E (db s) (of_nat h)) [10..<Suc (unat (highest_height s))] \<and>
       stf_run E bs st (forest s) = Some st')"
proof -
  from get_state_spec [OF assms(1,2), of 9] obtain c
    where c: "get_state E 9 s = (state_at E s 9, s\<lparr>old_cache := c\<rparr>)"
      and coh: "coherent (block_at E (db s)) c" by blast
  let ?s = "s\<lparr>old_cache := c\<rparr>"
  define hs :: "u64 list" where "hs = map of_nat [10..<Suc (unat (highest_height s))]"
  have inv: "storage_inv E ?s" by (rule storage_inv_cache [OF assms(2) coh])
  have "\<forall>h\<in>set hs. 1 \<le> unat h \<and> unat h \<le> unat (highest_height s)"
    using unat_bound [of "highest_height s"] by (auto simp: hs_def unat_of_nat_small)
  from stored_heights_ex [OF assms(1,2) this] obtain bs
    where bs: "map Some bs = map (block_at E (db s)) hs" .
  have all: "list_all2 (\<lambda>h b. Ok () = Ok ()) hs bs"
    using bs [THEN arg_cong, of length] by (simp add: list_all2_conv_all_nth)
  have run: "(\<exists>s'. replay E (\<lambda>_ _. Ok ()) hs st ?s = (Ok st', s')) \<longleftrightarrow>
      stf_run E bs st (forest s) = Some st'" for st
    using replay_Ok [OF assms(1) inv, of bs hs "\<lambda>_ _. Ok ()" st st'] bs all by simp
  have "(\<exists>s'. self_test_round E opt ask reward s = (Ok st', s')) \<longleftrightarrow>
      (\<exists>st. state_at E s 9 = Ok (Some st) \<and> stf_run E bs st (forest s) = Some st')"
    using run assms(3) by (auto simp: self_test_round_def hs_def [symmetric] c bind_st_Ok_iff simp del: upt_Suc)
  moreover have "(map Some bs' = map (\<lambda>h. block_at E (db s) (of_nat h)) [10..<Suc (unat (highest_height s))])
      \<longleftrightarrow> bs' = bs" for bs'
    using bs [symmetric] inj_map_eq_map [OF inj_Some, of bs' bs]
    by (simp add: hs_def comp_def del: upt_Suc)
  ultimately show ?thesis by auto
qed

text \<open>C37: On a chain shorter than nine blocks the self-test tests nothing: its task ends with an error
  at once, and the node goes on.\<close>

theorem self_test_needs_nine_blocks:
  assumes "ext_ok E" and "storage_inv E s" and "sql_range_ok E" and "unat (highest_height s) < 9"
  shows "fst (self_test_round E opt ask reward s) = Err (Context ''no block 1'' (MissingBlock 9))"
proof -
  have "unat (9::u64) = 9" by simp
  then have "block_at E (db s) 9 = None" and "sql_bindable E 9"
    using assms block_at_ex [OF ext_okD(1) [OF assms(1)], of "db s" 9] highest_height_eq [of E s]
    by (auto simp: storage_inv_def sql_range_ok_def)
  then have "state_at E s 9 = Ok None" by (simp add: state_at_def)
  with get_state_spec [OF assms(1,2), of 9] show ?thesis
    by (auto simp: self_test_round_def)
qed

section \<open>Witnesses\<close>

text \<open>A chain of ten blocks with the stakes of the genesis.\<close>

definition demo_rows :: tables where
  "demo_rows =
     (let hs = [1, 2, 3, 4, 5, 6, 7, 8, 9, 10] in
      \<lparr>history = map (\<lambda>h. (h, (put_header (demo_header h 2), put_block (demo_block h 2)))) hs,
       consensus_proofs = map (\<lambda>h. (h, put_proof [])) hs, stakes = []\<rparr>)"

definition demo_storage10 :: "(nat, demo_unsealed) storage" where
  "demo_storage10 = demo_storage\<lparr>db := demo_rows\<rparr>"

definition demo_state10 :: "u64 \<Rightarrow> demo_state" where
  "demo_state10 h = \<lparr>ds_header = demo_header h 2, ds_txs = [], ds_stakes = gc_stakes demo_genesis\<rparr>"

lemma demo_storage10_inv: "storage_inv demo demo_storage10"
proof -
  have "list_all (history_row demo) (history demo_rows)"
    by (auto simp: demo_rows_def history_row_def intro!: exI [of _ "demo_block _ 2"])
      (simp_all add: demo_block_def demo_header_def)
  then have "tables_inv demo demo_rows"
    by (simp add: tables_inv_def demo_rows_def consecutive_def upt_rec exI [of _ "[]"])
  then show ?thesis
    by (simp add: storage_inv_def demo_storage10_def demo_storage_defs coherent_def)
qed

lemma demo_highest10: "highest_height demo_storage10 = 10"
  by (simp add: highest_height_def demo_storage10_def demo_rows_def sql_max.simps)

theorem self_test_replays_chain_witness:
  "\<exists>s'. self_test_round demo default_args (\<lambda>_ _. None) (\<lambda>_. (0, 0)) demo_storage10 =
     (Ok (demo_state10 10), s')"
proof -
  have "state_at demo demo_storage10 9 = Ok (Some (demo_state10 9))"
    by (simp add: state_at_def block_at_def demo_storage10_def demo_rows_def get_stakeset_def query_def
        demo_root_def demo_block_def demo_header_def demo_doc_def demo_state10_def demo_storage_defs)
  moreover have "map Some [demo_block 10 2] =
      map (\<lambda>h. block_at demo (db demo_storage10) (of_nat h)) [10..<Suc (unat (highest_height demo_storage10))]"
    by (simp add: demo_highest10 upt_rec block_at_def) (simp add: demo_storage10_def demo_rows_def)
  moreover have "stf_run demo [demo_block 10 2] (demo_state10 9) (forest demo_storage10) = Some (demo_state10 10)"
    by (simp add: demo_apply_block_def demo_state10_def demo_block_def demo_header_def)
  ultimately show ?thesis
    by (intro iffD2 [OF self_test_replays_chain [OF demo_ext_ok demo_storage10_inv]] exI conjI)
      (simp_all only: default_args_def main_args.simps not_False_eq_True)
qed

theorem self_test_needs_nine_blocks_witness:
  "fst (self_test_round demo default_args (\<lambda>_ _. None) (\<lambda>_. (0, 0)) demo_storage1) = Err (Context ''no block 1'' (MissingBlock 9))"
  by (rule self_test_needs_nine_blocks [OF demo_ext_ok demo_storage1_inv demo_laws(5)])
    (simp add: demo_highest1)

end
