(* ===== verification/Migrate.thy ===== *)
theory Migrate
  imports Args "HOL-Library.Multiset" "HOL-Library.List_Lexorder" "HOL-Library.Char_ord"
begin

text \<open>
  \<^verbatim>\<open>src/bin/melnode-db-migrate.rs\<close>: reads a folder with one file per block, in the order
  of the file names, into a new database.  The contents of the folder are a parameter: the
  entries in the order the system lists them, a failing entry being \<open>None\<close>, and what
  reading each file gives.
\<close>

section \<open>The program\<close>

record folder =
  entries :: "string option list option"
  contents :: "string \<Rightarrow> bytes option"

text \<open>The first loop: the paths of the folder, if all can be listed.\<close>

fun collect_paths :: "string option list \<Rightarrow> string list \<Rightarrow> string list res" where
  "collect_paths [] paths = Ok paths"
| "collect_paths (None # files) paths = Err IoError"
| "collect_paths (Some path # files) paths = collect_paths files (paths @ [path])"

definition list_folder :: "folder \<Rightarrow> string list res" where
  "list_folder dir =
     bind_res (option_to_res IoError (entries dir)) (\<lambda>directory.
     bind_res (collect_paths directory []) (\<lambda>paths. Ok (sort paths)))"

text \<open>The second loop.  \<open>dec_pair\<close> decodes a block with its proof.\<close>

fun migrate_loop ::
    "('f, 's, 'u, 'k, 'x) ext_scheme \<Rightarrow> (bytes \<Rightarrow> (block \<times> cproof) option) \<Rightarrow> folder \<Rightarrow> string list \<Rightarrow>
     ('f, 'u) storage \<Rightarrow> unit res \<times> ('f, 'u) storage" where
  "migrate_loop E dec_pair dir [] s = (Ok (), s)"
| "migrate_loop E dec_pair dir (path # files) s =
     bind_st (option_to_res IoError (contents dir path), s) (\<lambda>raw_block s.
     bind_st (option_to_res DecodeError (dec_pair raw_block), s) (\<lambda>(blk, cproof) s.
     bind_st (apply_block E blk cproof s) (\<lambda>_ s.
     migrate_loop E dec_pair dir files s)))"

definition migrate_main ::
    "('f, 's, 'u, 'k, 'x) ext_scheme \<Rightarrow> ('f, 'z) os_scheme \<Rightarrow> (bytes \<Rightarrow> (block \<times> cproof) option) \<Rightarrow>
     folder \<Rightarrow> string \<Rightarrow> tables \<Rightarrow> 'f \<Rightarrow> unit res \<times> ('f, 'u) storage" where
  "migrate_main E os dec_pair dir new_path d f =
     (let storage = storage_open E new_path (std_mainnet os) d f in
      bind_st (list_folder dir, storage) (\<lambda>paths s. migrate_loop E dec_pair dir paths s))"

section \<open>What it does\<close>

lemma collect_paths_Ok:
  "collect_paths files paths = Ok ps \<longleftrightarrow> (\<exists>xs. files = map Some xs \<and> ps = paths @ xs)"
proof (induction files paths rule: collect_paths.induct)
  case (3 path files paths)
  have "(\<exists>xs. Some path # files = map Some xs \<and> ps = paths @ xs) \<longleftrightarrow>
      (\<exists>xs. files = map Some xs \<and> ps = (paths @ [path]) @ xs)"
    by (auto simp: Cons_eq_map_conv)
  with 3 show ?case by simp
qed auto

lemma list_folder_all: "entries dir = Some (map Some names) \<Longrightarrow> list_folder dir = Ok (sort names)"
  by (simp add: list_folder_def collect_paths_Ok [THEN iffD2])

definition decoded :: "(bytes \<Rightarrow> (block \<times> cproof) option) \<Rightarrow> folder \<Rightarrow> string \<Rightarrow> (block \<times> cproof) option" where
  "decoded dec_pair dir path = Option.bind (contents dir path) dec_pair"

text \<open>
  What the program is to do, without its loops: add the blocks of the files up to the first that
  cannot be read or decoded, and then report that file, if there is one.
\<close>

definition readable :: "(bytes \<Rightarrow> (block \<times> cproof) option) \<Rightarrow> folder \<Rightarrow> string list \<Rightarrow> (block \<times> cproof) list" where
  "readable dec_pair dir files =
     map (\<lambda>path. the (decoded dec_pair dir path))
       (takeWhile (\<lambda>path. decoded dec_pair dir path \<noteq> None) files)"

definition unreadable :: "(bytes \<Rightarrow> (block \<times> cproof) option) \<Rightarrow> folder \<Rightarrow> string list \<Rightarrow> unit res" where
  "unreadable dec_pair dir files =
     (case dropWhile (\<lambda>path. decoded dec_pair dir path \<noteq> None) files of
        [] \<Rightarrow> Ok ()
      | path # _ \<Rightarrow> Err (if contents dir path = None then IoError else DecodeError))"

lemma migrate_loop_run:
  "migrate_loop E dec_pair dir files s =
   bind_st (apply_all (apply_block E) (readable dec_pair dir files) n s)
     (\<lambda>_ s. (unreadable dec_pair dir files, s))"
proof (induction files arbitrary: n s)
  case Nil
  then show ?case by (simp add: readable_def unreadable_def)
next
  case (Cons path files)
  show ?case
  proof (cases "decoded dec_pair dir path")
    case None
    then show ?thesis
      by (cases "contents dir path") (simp_all add: decoded_def readable_def unreadable_def)
  next
    case (Some bp)
    obtain b p where bp: "bp = (b, p)" by fastforce
    obtain r s1 where "apply_block E b p s = (r, s1)" by fastforce
    with Some bp Cons [of s1 "Suc n"] show ?thesis
      by (cases "contents dir path"; cases r) (simp_all add: decoded_def readable_def unreadable_def)
  qed
qed

lemma unreadable_Ok: "unreadable dec_pair dir files = Ok () \<longleftrightarrow> length (readable dec_pair dir files) = length files"
proof (induction files)
  case (Cons path files)
  then show ?case
    by (cases "decoded dec_pair dir path") (simp_all add: unreadable_def readable_def)
qed (simp add: unreadable_def readable_def)

section \<open>Properties\<close>

text \<open>C39: A migration is: open the new database, then offer \<^verbatim>\<open>apply_block\<close> the block and the proof of
  each file of the folder, in the order of the names, up to the first file that cannot be read or
  decoded, and stop at the first block refused; the result is that refusal, or the error of that
  file, or success.  If it does not abort, the new database is sound and has grown by a first part
  of these blocks, at the heights that follow its old tip, each with the proof of its own file; if
  it succeeds, by one block for every file, so the names must sort by height.\<close>

theorem migrate_outcome:
  assumes "ext_ok E" and "tables_inv E d" and "entries dir = Some (map Some names)"
    and "s0 = storage_open E new_path (std_mainnet os) d f"
    and "xs = readable dec_pair dir (sort names)"
    and "migrate_main E os dec_pair dir new_path d f = (r, s')"
  shows "(r, s') = bind_st (apply_all (apply_block E) xs 0 s0)
      (\<lambda>_ s. (unreadable dec_pair dir (sort names), s)) \<and>
    ((\<forall>q. r \<noteq> Panic q) \<longrightarrow> storage_inv E s' \<and>
      (\<exists>ys zs. xs = ys @ zs \<and> extends tip_height (\<lambda>s. block_at E (db s)) (map fst ys) s0 s' \<and>
        (\<forall>(b, p)\<in>set ys. proof_at E (db s') (height_of b) = Some p) \<and>
        (r = Ok () \<longrightarrow> length ys = length names)))"
proof (intro conjI impI)
  have inv: "ext_ok E \<and> storage_inv E s0" using assms(1,4) storage_open_inv [OF assms(2)] by simp
  show run: "(r, s') = bind_st (apply_all (apply_block E) xs 0 s0)
      (\<lambda>_ s. (unreadable dec_pair dir (sort names), s))"
    using assms(6) unfolding assms(4,5)
    by (simp add: migrate_main_def Let_def list_folder_all [OF assms(3)] migrate_loop_run [where n = 0])
  obtain r1 s1 where all: "apply_all (apply_block E) xs 0 s0 = (r1, s1)" by fastforce
  with run have s': "s' = s1" by (cases r1) simp_all
  with st.apply_all_inv [OF inv] all show "storage_inv E s'" by blast
  assume r: "\<forall>q. r \<noteq> Panic q"
  with run all have "\<forall>q. r1 \<noteq> Panic q" by (cases r1) auto
  from st.apply_all_ends [OF inv all this] obtain ys zs
    where "xs = ys @ zs" "extends tip_height (\<lambda>s. block_at E (db s)) (map fst ys) s0 s1"
      "\<forall>(b, p)\<in>set ys. proof_at E (db s1) (height_of b) = Some p" "\<forall>m. r1 = Ok m \<longrightarrow> zs = []" by blast
  moreover have "r = Ok () \<longrightarrow> (\<exists>m. r1 = Ok m) \<and> length xs = length names"
    using run all unreadable_Ok [of dec_pair dir "sort names"] by (cases r1) (auto simp: assms(5))
  ultimately show "\<exists>ys zs. xs = ys @ zs \<and>
      extends tip_height (\<lambda>s. block_at E (db s)) (map fst ys) s0 s' \<and>
      (\<forall>(b, p)\<in>set ys. proof_at E (db s') (height_of b) = Some p) \<and>
      (r = Ok () \<longrightarrow> length ys = length names)"
    using s' by (intro exI [of _ ys] exI [of _ zs]) auto
qed

text \<open>If an entry of the folder cannot be listed, nothing is added.\<close>

lemma migrate_unlisted:
  assumes "\<nexists>names. entries dir = Some (map Some names)"
  shows "\<exists>r. migrate_main E os dec_pair dir new_path d f =
    (r, storage_open E new_path (std_mainnet os) d f) \<and> (\<exists>e. r = Err e)"
proof -
  have "collect_paths files paths = Err IoError" if "\<nexists>names. files = map Some names" for files paths
    using that by (induction files paths rule: collect_paths.induct) (auto simp: Cons_eq_map_conv)
  then have "list_folder dir = Err IoError"
    using assms by (cases "entries dir") (auto simp: list_folder_def)
  then show ?thesis by (simp add: migrate_main_def)
qed

text \<open>A migration cannot be resumed: on a database that already holds a block, a folder whose first
  file is the first block again is refused at once, with nothing added.\<close>

theorem migrate_not_resumable:
  assumes "ext_ok E" and "tables_inv E d" and "history d \<noteq> []" and "length (history d) < 2 ^ 64 - 1"
    and "list_folder dir = Ok (path # paths)" and "decoded dec_pair dir path = Some (b, p)"
    and "unat (height_of b) = 1"
    and "tip_state E (storage_open E new_path (std_mainnet os) d f) = Ok base"
  shows "\<exists>e s'. migrate_main E os dec_pair dir new_path d f = (Err e, s') \<and> db s' = db (storage_open E new_path (std_mainnet os) d f)"
proof -
  let ?s = "storage_open E new_path (std_mainnet os) d f"
  have inv: "storage_inv E ?s" by (rule storage_open_inv [OF assms(2)])
  have tip: "unat (highest_height ?s) = length (history d)"
    using highest_height_eq [of E ?s] inv by (simp add: storage_inv_def)
  from highest_state_spec [OF assms(1) inv] assms(8) obtain c
    where c: "highest_state E ?s = (Ok base, ?s\<lparr>old_cache := c\<rparr>)" by auto
  have h: "hd_height (state_header E base) = highest_height ?s"
    using tip_state_cases [OF assms(1) inv] assms(8) tip by (auto simp: word_unat_eq_iff)
  have "checked_add (highest_height ?s) 1 = Ok (highest_height ?s + 1) \<and> height_of b \<noteq> highest_height ?s + 1"
    using tip assms(3,4,7) by (auto simp: checked_add_Ok_iff unat_u64_Suc word_unat_eq_iff)
  with c h have "apply_block E b p ?s = (Err (CannotApply (height_of b) (highest_height ?s)), ?s\<lparr>old_cache := c\<rparr>)"
    by (simp add: apply_block_def check_block_def)
  moreover obtain raw where "contents dir path = Some raw" "dec_pair raw = Some (b, p)"
    using assms(6) by (auto simp: decoded_def bind_eq_Some_conv)
  ultimately show ?thesis
    using assms(5) by (simp add: migrate_main_def Let_def)
qed

section \<open>Witnesses\<close>

definition demo_os :: "nat os" where
  "demo_os = \<lparr>read_file = (\<lambda>p. None), parse_genesis = (\<lambda>b. None), parse_staker_config = (\<lambda>b. None),
     std_testnet = demo_genesis, std_mainnet = demo_genesis, home_dir = Some ''/home'',
     create_dir_all = (\<lambda>p. True), disk = (\<lambda>p. Some (no_tables, 0)), resolve = (\<lambda>n. None),
     bootstrap_routes = (\<lambda>n. [])\<rparr>"

definition demo_folder :: folder where
  "demo_folder = \<lparr>entries = Some [Some ''1''], contents = (\<lambda>p. Some [])\<rparr>"

definition demo_pair :: "bytes \<Rightarrow> (block \<times> cproof) option" where
  "demo_pair raw = Some (demo_block 1 2, demo_cproof 1)"

lemma demo_list_folder: "list_folder demo_folder = Ok [''1'']"
  by (simp add: list_folder_def demo_folder_def)

lemma demo_mainnet: "storage_open demo ''/db'' (std_mainnet demo_os) no_tables 0 = demo_storage"
  by (simp add: demo_os_def demo_storage_def)

lemma demo_migrate:
  "migrate_main demo demo_os demo_pair demo_folder ''/db'' no_tables 0 = (Ok (), demo_storage1)"
  using demo_apply1
  by (simp add: migrate_main_def demo_list_folder demo_mainnet Let_def)
    (simp add: demo_folder_def demo_pair_def)

theorem migrate_outcome_witness:
  "apply_all (apply_block demo) [(demo_block 1 2, demo_cproof 1)] 0 demo_storage = (Ok 1, demo_storage1) \<and>
   block_at demo (db demo_storage1) 1 = Some (demo_block 1 2) \<and>
   proof_at demo (db demo_storage1) 1 = Some (demo_cproof 1)"
proof -
  have xs: "[(demo_block 1 2, demo_cproof 1)] = readable demo_pair demo_folder (sort [''1''])"
    by (simp add: readable_def decoded_def demo_folder_def demo_pair_def)
  have names: "entries demo_folder = Some (map Some [''1''])" by (simp add: demo_folder_def)
  have h: "height_of (demo_block 1 2) = 1" by (simp add: demo_block_def demo_header_def)
  note out = migrate_outcome [OF demo_ext_ok tables_inv_empty names demo_mainnet [symmetric] xs demo_migrate]
  have run: "apply_all (apply_block demo) [(demo_block 1 2, demo_cproof 1)] 0 demo_storage = (Ok 1, demo_storage1)"
    by (simp add: demo_apply1)
  from out [THEN conjunct2] obtain ys zs
    where ys: "[(demo_block 1 2, demo_cproof 1)] = ys @ zs" "length ys = length [''1'']"
      and "extends tip_height (\<lambda>s. block_at demo (db s)) (map fst ys) demo_storage demo_storage1"
      and "\<forall>(b, p)\<in>set ys. proof_at demo (db demo_storage1) (height_of b) = Some p" by auto
  moreover from ys have "ys = [(demo_block 1 2, demo_cproof 1)]" by (cases ys) auto
  ultimately show ?thesis using run h by (auto simp: extends_def)
qed

lemma demo_reopen_tip:
  "\<exists>base. tip_state demo (storage_open demo ''/db'' (std_mainnet demo_os) (db demo_storage1) 0) = Ok base"
proof -
  have "fst (highest_state demo (storage_open demo ''/db'' demo_genesis (db demo_storage1) 0)) =
      Ok \<lparr>ds_header = demo_header 1 2, ds_txs = [], ds_stakes = gc_stakes demo_genesis\<rparr>"
    by (simp add: demo_storage1_def demo_storage_defs demo_run_defs Let_def)
  moreover have "storage_inv demo (storage_open demo ''/db'' demo_genesis (db demo_storage1) 0)"
    using demo_storage1_inv by (intro storage_open_inv) (simp add: storage_inv_def)
  ultimately show ?thesis
    using highest_state_spec [OF demo_ext_ok] by (fastforce simp: demo_os_def)
qed

theorem migrate_not_resumable_witness:
  "\<exists>e s'. migrate_main demo demo_os demo_pair demo_folder ''/db'' (db demo_storage1) 0 = (Err e, s')"
proof -
  obtain base where base:
    "tip_state demo (storage_open demo ''/db'' (std_mainnet demo_os) (db demo_storage1) 0) = Ok base"
    using demo_reopen_tip by blast
  have inv: "tables_inv demo (db demo_storage1)" using demo_storage1_inv by (simp add: storage_inv_def)
  have len: "length (history (db demo_storage1)) = 1"
    using highest_height_eq [OF inv] demo_highest1 by simp
  have "history (db demo_storage1) \<noteq> []" "length (history (db demo_storage1)) < 2 ^ 64 - 1"
    using len by auto
  moreover have "decoded demo_pair demo_folder ''1'' = Some (demo_block 1 2, demo_cproof 1)"
    by (simp add: decoded_def demo_folder_def demo_pair_def)
  moreover have "unat (height_of (demo_block 1 2)) = 1" by (simp add: demo_block_def demo_header_def)
  ultimately show ?thesis
    using migrate_not_resumable [OF demo_ext_ok inv _ _ demo_list_folder _ _ base] by blast
qed

end
