(* ===== verification/Cli.thy ===== *)
theory Cli
  imports Args "HOL-Library.Sublist"
begin

text \<open>
  How a script of \<^verbatim>\<open>melsimnet\<close> becomes the arguments of \<^verbatim>\<open>melnode\<close>: the shell splits the
  command line into words, the command line parser turns the words into options, and the
  declarations of \<^verbatim>\<open>MainArgs\<close> (\<^verbatim>\<open>src/args.rs\<close>) say what each option sets.  The shell is
  modelled on lines whose characters all stand for themselves, the standard library's parser of
  addresses on IPv4.  The command line parser itself is a parameter, with what it promises for
  options that are written out in full and given once.
\<close>

section \<open>Text\<close>

fun split_on :: "char \<Rightarrow> string \<Rightarrow> string list" where
  "split_on c [] = [[]]"
| "split_on c (x # xs) =
     (if x = c then [] # split_on c xs
      else case split_on c xs of w # ws \<Rightarrow> (x # w) # ws | [] \<Rightarrow> [[x]])"

lemma split_on_word: "c \<notin> set w \<Longrightarrow> split_on c w = [w]"
  by (induction w) auto

lemma split_on_append [simp]: "c \<notin> set w \<Longrightarrow> split_on c (w @ c # s) = w # split_on c s"
  by (induction w) auto

definition newline :: string where
  "newline = [CHR 0x0A]"

definition as_bytes :: "string \<Rightarrow> bytes" where
  "as_bytes = map of_char"

definition as_text :: "bytes \<Rightarrow> string" where
  "as_text = map (\<lambda>b. char_of (unat b))"

lemma char_of_u8: "char_of (unat (of_char c :: u8)) = c"
proof -
  have "unat (of_nat (of_char c) :: u8) = of_char c" by (rule unat_of_nat_small) simp
  then show ?thesis by (simp only: of_nat_of_char char_of_char)
qed

lemma as_text_bytes [simp]: "as_text (as_bytes s) = s"
  by (simp add: as_text_def as_bytes_def comp_def char_of_u8)

lemma as_bytes_inj [simp]: "as_bytes s = as_bytes t \<longleftrightarrow> s = t"
  by (metis as_text_bytes)

section \<open>Numbers\<close>

text \<open>Printing a number in decimal, and reading it.\<close>

fun decimal :: "nat \<Rightarrow> string" where
  "decimal n =
     (if n < 10 then [char_of (48 + n)] else decimal (n div 10) @ [char_of (48 + n mod 10)])"

declare decimal.simps [simp del]

definition is_digit :: "char \<Rightarrow> bool" where
  "is_digit c \<longleftrightarrow> 48 \<le> (of_char c :: nat) \<and> (of_char c :: nat) \<le> 57"

definition parse_number :: "string \<Rightarrow> nat option" where
  "parse_number w =
     (if w \<noteq> [] \<and> list_all is_digit w then Some (foldl (\<lambda>n c. 10 * n + (of_char c - 48)) 0 w) else None)"

lemma of_char_digit: "n < 10 \<Longrightarrow> (of_char (char_of (48 + n :: nat)) :: nat) = 48 + n"
  by simp

lemma is_digit_of: "n < 10 \<Longrightarrow> is_digit (char_of (48 + n :: nat))"
  unfolding is_digit_def by (subst (1 2) of_char_digit) auto

lemma decimal_not_Nil [simp]: "decimal n \<noteq> []"
  by (subst decimal.simps) simp

lemma decimal_digits: "list_all is_digit (decimal n)"
proof (induction n rule: decimal.induct)
  case (1 n)
  then show ?case by (subst decimal.simps) (auto intro: is_digit_of)
qed

lemma parse_decimal [simp]: "parse_number (decimal n) = Some n"
proof -
  have "foldl (\<lambda>n c. 10 * n + (of_char c - 48)) 0 (decimal n) = n"
  proof (induction n rule: decimal.induct)
    case (1 n)
    show ?case
    proof (cases "n < 10")
      case True
      then show ?thesis by (subst decimal.simps) (simp add: of_char_digit)
    next
      case False
      with 1 show ?thesis by (subst decimal.simps) (simp add: of_char_digit)
    qed
  qed
  then show ?thesis by (simp add: parse_number_def decimal_digits)
qed

lemma decimal_inj [simp]: "decimal m = decimal n \<longleftrightarrow> m = n"
  by (metis option.inject parse_decimal)

lemma decimal_chars: "\<not> is_digit c \<Longrightarrow> c \<notin> set (decimal n)"
  using decimal_digits [of n] by (auto simp: list_all_iff)

section \<open>Addresses\<close>

text \<open>
  \<^verbatim>\<open>SocketAddr::from_str\<close>.  A part of an IPv4 address has at most three digits and no
  leading zero; a port may have any number of digits.  What starts with a bracket is an IPv6
  address, which is left to \<open>v6\<close>.
\<close>

definition ipv4_octet :: "string \<Rightarrow> bool" where
  "ipv4_octet w \<longleftrightarrow> length w \<le> 3 \<and> (w = ''0'' \<or> \<not> prefix ''0'' w) \<and>
     (case parse_number w of Some n \<Rightarrow> n < 256 | None \<Rightarrow> False)"

definition parse_u16 :: "string \<Rightarrow> 16 word option" where
  "parse_u16 w =
     (case parse_number w of
        Some n \<Rightarrow> if n < 65536 then Some (of_nat n) else None
      | None \<Rightarrow> None)"

definition parse_sock_addr :: "(string \<Rightarrow> sock_addr option) \<Rightarrow> string \<Rightarrow> sock_addr option" where
  "parse_sock_addr v6 s =
     (if prefix ''['' s then v6 s
      else case split_on (CHR '':'') s of
          [host, port] \<Rightarrow>
            if length (split_on (CHR ''.'') host) = 4 \<and> list_all ipv4_octet (split_on (CHR ''.'') host)
            then map_option (SockAddr host) (parse_u16 port) else None
        | _ \<Rightarrow> None)"

lemma parse_loopback:
  "parse_sock_addr v6 (''127.0.0.1:'' @ decimal n) =
    (if n < 65536 then Some (SockAddr ''127.0.0.1'' (of_nat n)) else None)"
proof -
  have "CHR '':'' \<notin> set (decimal n)" by (rule decimal_chars) (simp add: is_digit_def)
  then have "split_on (CHR '':'') (''127.0.0.1:'' @ decimal n) = [''127.0.0.1'', decimal n]"
    by (simp add: split_on_word)
  moreover have "list_all ipv4_octet [''127'', ''0'', ''0'', ''1'']"
    by (simp add: ipv4_octet_def parse_number_def is_digit_def)
  ultimately show ?thesis by (simp add: parse_sock_addr_def parse_u16_def)
qed

section \<open>Options\<close>

text \<open>The options \<^verbatim>\<open>MainArgs\<close> declares, and what giving one does; a value that cannot be
  parsed is refused.\<close>

definition valued_options :: "string list" where
  "valued_options = [''listen'', ''legacy-listen'', ''advertise'', ''bootstrap'', ''database'',
     ''staker-cfg'', ''override-genesis'']"

definition flag_options :: "string list" where
  "flag_options = [''testnet'', ''self-test'', ''index-coins'']"

definition set_value ::
    "(string \<Rightarrow> sock_addr option) \<Rightarrow> string \<Rightarrow> string \<Rightarrow> main_args \<Rightarrow> main_args option" where
  "set_value v6 name v a =
     (if name = ''listen'' then map_option (\<lambda>addr. a\<lparr>listen := addr\<rparr>) (parse_sock_addr v6 v)
      else if name = ''legacy-listen'' then
        map_option (\<lambda>addr. a\<lparr>legacy_listen := Some addr\<rparr>) (parse_sock_addr v6 v)
      else if name = ''advertise'' then
        map_option (\<lambda>addr. a\<lparr>advertise := Some addr\<rparr>) (parse_sock_addr v6 v)
      else if name = ''bootstrap'' then Some (a\<lparr>ar_bootstrap := [v]\<rparr>)
      else if name = ''database'' then Some (a\<lparr>database := Some v\<rparr>)
      else if name = ''staker-cfg'' then Some (a\<lparr>ar_staker_cfg := Some v\<rparr>)
      else if name = ''override-genesis'' then Some (a\<lparr>override_genesis := Some v\<rparr>)
      else None)"

definition set_flag :: "string \<Rightarrow> main_args \<Rightarrow> main_args option" where
  "set_flag name a =
     (if name = ''testnet'' then Some (a\<lparr>testnet := True\<rparr>)
      else if name = ''self-test'' then Some (a\<lparr>self_test := True\<rparr>)
      else if name = ''index-coins'' then Some (a\<lparr>index_coins := True\<rparr>)
      else None)"

fun set_options ::
    "(string \<Rightarrow> sock_addr option) \<Rightarrow> (string \<times> string option) list \<Rightarrow> main_args \<Rightarrow> main_args option" where
  "set_options v6 [] a = Some a"
| "set_options v6 ((name, Some v) # opts) a = Option.bind (set_value v6 name v a) (set_options v6 opts)"
| "set_options v6 ((name, None) # opts) a = Option.bind (set_flag name a) (set_options v6 opts)"

text \<open>The words of a command line that gives these options.\<close>

fun option_words :: "(string \<times> string option) list \<Rightarrow> string list" where
  "option_words [] = []"
| "option_words ((name, Some v) # opts) = (''--'' @ name) # v # option_words opts"
| "option_words ((name, None) # opts) = (''--'' @ name) # option_words opts"

text \<open>
  What the documentation of the command line parser says: when declared options are given, each
  at most once, the ones with a value followed by it in a word of its own that does not look
  like an option, then the result is the defaults with these options set, or no result, the
  program being left with a message, when a value is refused.
\<close>

definition clap_ok ::
    "(string \<Rightarrow> sock_addr option) \<Rightarrow> (string list \<Rightarrow> main_args option) \<Rightarrow> bool" where
  "clap_ok v6 cli \<longleftrightarrow> (\<forall>opts. distinct (map fst opts) \<and>
     (\<forall>(name, v)\<in>set opts. case v of
        Some v \<Rightarrow> name \<in> set valued_options \<and> v \<noteq> [] \<and> \<not> prefix ''-'' v
      | None \<Rightarrow> name \<in> set flag_options) \<longrightarrow>
     cli (option_words opts) = set_options v6 opts default_args)"

section \<open>Scripts\<close>

text \<open>
  The shell on a script of one command in which every character stands for itself: lines that
  start with a hash sign are comments, spaces separate the words.
\<close>

definition plain :: "char \<Rightarrow> bool" where
  "plain c \<longleftrightarrow> is_digit c \<or> c \<in> set ''abcdefghijklmnopqrstuvwxyzABCDEFGHIJKLMNOPQRSTUVWXYZ-_.:/''"

definition shell_words :: "string \<Rightarrow> string list option" where
  "shell_words line =
     (if list_all (\<lambda>c. plain c \<or> c = CHR '' '') line
      then Some (filter (\<lambda>w. w \<noteq> []) (split_on (CHR '' '') line)) else None)"

definition shell_command :: "bytes \<Rightarrow> (string \<times> string list) option" where
  "shell_command script =
     (case filter (\<lambda>line. line \<noteq> [] \<and> \<not> prefix ''#'' line) (split_on (CHR 0x0A) (as_text script)) of
        [line] \<Rightarrow>
          (case shell_words line of
             Some (command # arguments) \<Rightarrow> Some (command, arguments)
           | _ \<Rightarrow> None)
      | _ \<Rightarrow> None)"

text \<open>A line of plain words, put together with spaces.\<close>

fun unwords :: "string list \<Rightarrow> string" where
  "unwords [] = []"
| "unwords [w] = w"
| "unwords (w # ws) = w @ CHR '' '' # unwords ws"

definition plain_word :: "string \<Rightarrow> bool" where
  "plain_word w \<longleftrightarrow> w \<noteq> [] \<and> list_all plain w"

lemma not_plain [simp]: "\<not> plain (CHR '' '')" "\<not> plain (CHR 0x0A)"
  by (simp_all add: plain_def is_digit_def)

lemma plain_word_space: "plain_word w \<Longrightarrow> CHR '' '' \<notin> set w"
  unfolding plain_word_def list_all_iff using not_plain(1) by blast

lemma split_unwords:
  "list_all plain_word ws \<Longrightarrow> ws \<noteq> [] \<Longrightarrow> split_on (CHR '' '') (unwords ws) = ws"
  by (induction ws rule: unwords.induct) (simp_all add: plain_word_space split_on_word)

lemma plain_unwords:
  "list_all plain_word ws \<Longrightarrow> list_all (\<lambda>c. plain c \<or> c = CHR '' '') (unwords ws)"
  by (induction ws rule: unwords.induct) (auto simp: plain_word_def list_all_iff)

lemma shell_unwords:
  assumes "list_all plain_word ws" and "ws \<noteq> []"
  shows "shell_words (unwords ws) = Some ws"
proof -
  have "filter (\<lambda>w. w \<noteq> []) ws = ws"
    using assms(1) by (intro filter_True) (simp add: list_all_iff plain_word_def)
  then show ?thesis by (simp add: shell_words_def plain_unwords assms split_unwords)
qed

text \<open>A script of a first line that is a comment and one plain command.\<close>

lemma shell_script:
  assumes "prefix ''#'' comment" and "CHR 0x0A \<notin> set comment" and "list_all plain_word (command # arguments)"
  shows "shell_command (as_bytes (comment @ newline @ unwords (command # arguments))) = Some (command, arguments)"
proof -
  let ?line = "unwords (command # arguments)"
  have "list_all (\<lambda>c. plain c \<or> c = CHR '' '') ?line" by (rule plain_unwords [OF assms(3)])
  then have "CHR 0x0A \<notin> set ?line" using not_plain(2) by (auto simp: list_all_iff)
  then have lines: "split_on (CHR 0x0A) (comment @ newline @ ?line) = [comment, ?line]"
    using assms(2) by (simp add: newline_def split_on_word)
  obtain c cs where first: "command = c # cs" and "plain c"
    using assms(3) by (cases command) (auto simp: plain_word_def)
  then have "c \<noteq> CHR ''#''" by (auto simp: plain_def is_digit_def)
  then have "?line \<noteq> [] \<and> \<not> prefix ''#'' ?line" using first by (cases arguments) auto
  with assms(1) lines show ?thesis
    by (simp add: shell_command_def shell_unwords [OF assms(3)])
qed

end
