(* ===== verification/Simnet.thy ===== *)
theory Simnet
  imports Cli
begin

text \<open>
  \<^verbatim>\<open>src/bin/melsimnet.rs\<close>: the files of a simulated network.  Generating keys, hashing
  a public key, printing YAML and whether a file can be written are the record \<open>sim\<close>; the
  directory is the list of the files in it.
\<close>

section \<open>The files\<close>

type_synonym files = "(string \<times> bytes) list"

record sim = signer +
  generate_key :: "nat \<Rightarrow> bytes"
  hash_key :: "pubkey \<Rightarrow> hashval"
  staker_yaml :: "staker_config \<Rightarrow> string option"
  genesis_yaml :: "genesis_config \<Rightarrow> bytes option"
  can_write :: "string \<Rightarrow> bool"

definition write_file :: "'z sim_scheme \<Rightarrow> string \<Rightarrow> bytes \<Rightarrow> files \<Rightarrow> unit res \<times> files" where
  "write_file W path content fs =
     (if can_write W path then (Ok (), AList.update path content fs) else (Err IoError, fs))"

section \<open>The network\<close>

definition secrets_of :: "'z sim_scheme \<Rightarrow> u128 list \<Rightarrow> bytes list" where
  "secrets_of W stake = map (generate_key W) [0..<length stake]"

definition sim_stake_doc :: "'z sim_scheme \<Rightarrow> u128 \<Rightarrow> bytes \<Rightarrow> hashval \<times> stake_doc" where
  "sim_stake_doc W amount key =
     (hash_key W (to_public W key),
      \<lparr>sd_pubkey = to_public W key, sd_e_start = 0, sd_e_post_end = 1000000, sd_syms_staked = amount\<rparr>)"

definition sim_genesis :: "'z sim_scheme \<Rightarrow> u128 list \<Rightarrow> genesis_config" where
  "sim_genesis W stake =
     \<lparr>gc_network = Custom02,
      gc_init_coindata = \<lparr>cd_covhash = 0, cd_value = 0, cd_denom = Mel, cd_additional_data = []\<rparr>,
      gc_stakes = fold (\<lambda>(txhash, doc). AList.update txhash doc)
        (map (\<lambda>(amount, key). sim_stake_doc W amount key) (zip stake (secrets_of W stake))) [],
      gc_init_fee_pool = 0,
      gc_init_fee_multiplier = 100\<rparr>"

definition sim_staker_config :: "nat \<Rightarrow> bytes \<Rightarrow> staker_config" where
  "sim_staker_config i key =
     \<lparr>signing_secret = key,
      sc_listen = SockAddr ''127.0.0.1'' (of_nat (i + 5000)),
      sc_bootstrap = SockAddr ''127.0.0.1'' 5000,
      payout_addr = 0,
      target_fee_multiplier = 10000\<rparr>"

definition sim_staker_configs :: "'z sim_scheme \<Rightarrow> u128 list \<Rightarrow> staker_config list" where
  "sim_staker_configs W stake =
     map (\<lambda>(i, key). sim_staker_config i key) (enumerate 0 (secrets_of W stake))"

definition staker_file :: "nat \<Rightarrow> string" where
  "staker_file i = ''staker-'' @ decimal i @ ''.yaml''"

definition run_file :: "nat \<Rightarrow> string" where
  "run_file i = ''run-staker-'' @ decimal i @ ''.sh''"

definition run_cmd :: "nat \<Rightarrow> string" where
  "run_cmd i =
     ''#!/bin/sh'' @ newline @
     ''melnode --bootstrap 127.0.0.1:2000 --listen 127.0.0.1:'' @ decimal (2000 + i) @
     '' --advertise 127.0.0.1:'' @ decimal (2000 + i) @
     '' --override-genesis genesis.yaml --staker-cfg staker-'' @ decimal i @
     ''.yaml --database .database-'' @ decimal i"

definition run_all_header :: string where
  \<open>run_all_header = ''#!/bin/sh'' @ newline @
     ''trap "trap - SIGTERM && kill -- -$$" SIGINT SIGTERM EXIT'' @ newline\<close>

fun write_stakers ::
    "'z sim_scheme \<Rightarrow> nat \<Rightarrow> staker_config list \<Rightarrow> string \<Rightarrow> files \<Rightarrow> string res \<times> files" where
  "write_stakers W i [] run_all_script fs = (Ok run_all_script, fs)"
| "write_stakers W i (config # configs) run_all_script fs =
     bind_st (option_to_res ParseError (staker_yaml W config), fs) (\<lambda>yaml fs.
     bind_st (write_file W (staker_file i) (as_bytes yaml) fs) (\<lambda>_ fs.
     bind_st (write_file W (run_file i) (as_bytes (run_cmd i)) fs) (\<lambda>_ fs.
     write_stakers W (Suc i) configs
       (run_all_script @ ''sh run-staker-'' @ decimal i @ ''.sh &'' @ newline) fs)))"

definition main_create :: "'z sim_scheme \<Rightarrow> u128 list \<Rightarrow> files \<Rightarrow> unit res \<times> files" where
  "main_create W stake fs =
     bind_st (write_stakers W 0 (sim_staker_configs W stake) run_all_header fs) (\<lambda>run_all_script fs.
     bind_st (write_file W ''run-all.sh'' (as_bytes (run_all_script @ ''wait'' @ newline)) fs) (\<lambda>_ fs.
     bind_st (option_to_res ParseError (genesis_yaml W (sim_genesis W stake)), fs) (\<lambda>yaml fs.
     write_file W ''genesis.yaml'' yaml fs)))"

section \<open>The run scripts\<close>

text \<open>The options in the i-th script, found by reading it the way the shell does.\<close>

definition sim_options :: "nat \<Rightarrow> (string \<times> string option) list" where
  "sim_options i =
     [(''bootstrap'', Some ''127.0.0.1:2000''),
      (''listen'', Some (''127.0.0.1:'' @ decimal (2000 + i))),
      (''advertise'', Some (''127.0.0.1:'' @ decimal (2000 + i))),
      (''override-genesis'', Some ''genesis.yaml''),
      (''staker-cfg'', Some (staker_file i)),
      (''database'', Some (''.database-'' @ decimal i))]"

lemma plain_decimal: "list_all plain (decimal n)"
  using decimal_digits [of n] by (auto simp: list_all_iff plain_def)

lemma run_cmd_command:
  "shell_command (as_bytes (run_cmd i)) = Some (''melnode'', option_words (sim_options i))"
proof -
  have "list_all plain_word (''melnode'' # option_words (sim_options i))"
    by (simp add: sim_options_def staker_file_def plain_word_def plain_decimal)
      (simp add: plain_def is_digit_def)
  from shell_script [OF _ _ this, of "''#!/bin/sh''"]
  have "shell_command (as_bytes (''#!/bin/sh'' @ newline @ unwords (''melnode'' # option_words (sim_options i)))) =
      Some (''melnode'', option_words (sim_options i))" by simp
  then show ?thesis by (simp add: run_cmd_def sim_options_def staker_file_def)
qed

lemma decimal_not_dash: "\<not> prefix ''-'' (decimal n)"
  using decimal_digits [of n] by (cases "decimal n") (auto simp: is_digit_def)

lemma sim_options_set:
  assumes "clap_ok v6 cli"
  shows "cli (option_words (sim_options i)) = set_options v6 (sim_options i) default_args"
proof -
  have "distinct (map fst (sim_options i))" by (simp add: sim_options_def)
  moreover have "\<forall>(name, v)\<in>set (sim_options i). case v of
      Some v \<Rightarrow> name \<in> set valued_options \<and> v \<noteq> [] \<and> \<not> prefix ''-'' v
    | None \<Rightarrow> name \<in> set flag_options"
    by (simp add: sim_options_def valued_options_def staker_file_def)
  ultimately show ?thesis using assms unfolding clap_ok_def by blast
qed

lemma sim_options_args:
  "set_options v6 (sim_options i) default_args =
    (if 2000 + i < 65536 then Some (default_args
       \<lparr>ar_bootstrap := [''127.0.0.1:2000''],
        listen := SockAddr ''127.0.0.1'' (of_nat (2000 + i)),
        advertise := Some (SockAddr ''127.0.0.1'' (of_nat (2000 + i))),
        override_genesis := Some ''genesis.yaml'',
        ar_staker_cfg := Some (staker_file i),
        database := Some (''.database-'' @ decimal i)\<rparr>)
     else None)"
  using parse_loopback [of v6 "2000 + i"] by (simp add: sim_options_def set_value_def)

section \<open>File names\<close>

lemma file_names [simp]:
  "staker_file i = staker_file j \<longleftrightarrow> i = j"
  "run_file i = run_file j \<longleftrightarrow> i = j"
  "staker_file i \<noteq> run_file j" "run_file i \<noteq> staker_file j"
  "staker_file i \<noteq> ''run-all.sh''" "run_file i \<noteq> ''run-all.sh''"
  "staker_file i \<noteq> ''genesis.yaml''" "run_file i \<noteq> ''genesis.yaml''"
  "''run-all.sh'' \<noteq> staker_file i" "''run-all.sh'' \<noteq> run_file i"
  "''genesis.yaml'' \<noteq> staker_file i" "''genesis.yaml'' \<noteq> run_file i"
  by (simp_all add: staker_file_def run_file_def)

section \<open>What is written\<close>

lemma write_file_Ok_iff:
  "write_file W p c fs = (Ok (), fs') \<longleftrightarrow> can_write W p \<and> fs' = AList.update p c fs"
  by (auto simp: write_file_def)

lemma nth_sim_staker_configs:
  "i < length stake \<Longrightarrow>
   sim_staker_configs W stake ! i = sim_staker_config i (generate_key W i)"
  by (simp add: sim_staker_configs_def secrets_of_def nth_enumerate_eq)

lemma length_sim_staker_configs [simp]: "length (sim_staker_configs W stake) = length stake"
  by (simp add: sim_staker_configs_def secrets_of_def)

lemma write_stakers_others:
  assumes "write_stakers W k configs script fs = (Ok script', fs')"
    and "\<And>i. k \<le> i \<Longrightarrow> p \<noteq> staker_file i" and "\<And>i. k \<le> i \<Longrightarrow> p \<noteq> run_file i"
  shows "map_of fs' p = map_of fs p"
  using assms
proof (induction W k configs script fs rule: write_stakers.induct)
  case (2 W i config configs script fs)
  from 2(2) obtain yaml where yaml: "staker_yaml W config = Some yaml"
    and w: "can_write W (staker_file i)" "can_write W (run_file i)"
    by (auto simp: bind_st_Ok_iff option_to_res_def write_file_Ok_iff split: option.splits)
  let ?fs = "AList.update (run_file i) (as_bytes (run_cmd i)) (AList.update (staker_file i) (as_bytes yaml) fs)"
  have "map_of fs' p = map_of ?fs p"
    using 2 yaml w by (simp add: option_to_res_def write_file_def)
  also have "\<dots> = map_of fs p"
    using 2(3,4) [of i] by (simp add: update_conv')
  finally show ?case .
qed simp

lemma write_stakers_files:
  assumes "write_stakers W k configs script fs = (Ok script', fs')" and "j < length configs"
  shows "map_of fs' (staker_file (k + j)) = map_option as_bytes (staker_yaml W (configs ! j)) \<and>
    staker_yaml W (configs ! j) \<noteq> None \<and>
    map_of fs' (run_file (k + j)) = Some (as_bytes (run_cmd (k + j)))"
  using assms
proof (induction configs arbitrary: k script fs j)
  case (Cons config configs)
  from Cons.prems(1) obtain yaml where yaml: "staker_yaml W config = Some yaml"
    and w: "can_write W (staker_file k)" "can_write W (run_file k)"
    by (auto simp: bind_st_Ok_iff option_to_res_def write_file_Ok_iff split: option.splits)
  let ?fs = "AList.update (run_file k) (as_bytes (run_cmd k)) (AList.update (staker_file k) (as_bytes yaml) fs)"
  let ?script = "script @ ''sh run-staker-'' @ decimal k @ ''.sh &'' @ newline"
  have rest: "write_stakers W (Suc k) configs ?script ?fs = (Ok script', fs')"
    using Cons.prems(1) yaml w by (simp add: option_to_res_def write_file_def)
  show ?case
  proof (cases j)
    case 0
    have "map_of fs' (staker_file k) = map_of ?fs (staker_file k)"
      and "map_of fs' (run_file k) = map_of ?fs (run_file k)"
      by (rule write_stakers_others [OF rest], simp_all)+
    with 0 yaml show ?thesis by (simp add: update_conv')
  next
    case (Suc j')
    with Cons.IH [OF rest, of j'] Cons.prems(2) show ?thesis by simp
  qed
qed simp

lemma main_create_files:
  assumes "main_create W stake fs = (Ok (), fs')"
  shows "i < length stake \<Longrightarrow>
      \<exists>y. staker_yaml W (sim_staker_config i (generate_key W i)) = Some y \<and>
          map_of fs' (staker_file i) = Some (as_bytes y)"
    and "i < length stake \<Longrightarrow> map_of fs' (run_file i) = Some (as_bytes (run_cmd i))"
    and "\<exists>y. genesis_yaml W (sim_genesis W stake) = Some y \<and> map_of fs' ''genesis.yaml'' = Some y"
proof -
  from assms obtain script fs1 y
    where w: "write_stakers W 0 (sim_staker_configs W stake) run_all_header fs = (Ok script, fs1)"
      and y: "genesis_yaml W (sim_genesis W stake) = Some y"
      and fs': "fs' = AList.update ''genesis.yaml'' y
        (AList.update ''run-all.sh'' (as_bytes (script @ ''wait'' @ newline)) fs1)"
    by (auto simp: main_create_def bind_st_Ok_iff write_file_Ok_iff option_to_res_def split: option.splits)
  show "\<exists>y. genesis_yaml W (sim_genesis W stake) = Some y \<and> map_of fs' ''genesis.yaml'' = Some y"
    using y by (simp add: fs' update_conv')
  assume i: "i < length stake"
  with write_stakers_files [OF w, of i]
  show "\<exists>y. staker_yaml W (sim_staker_config i (generate_key W i)) = Some y \<and>
          map_of fs' (staker_file i) = Some (as_bytes y)"
    and "map_of fs' (run_file i) = Some (as_bytes (run_cmd i))"
    by (auto simp: fs' update_conv' nth_sim_staker_configs)
qed

lemma map_of_fold_update:
  "distinct (map fst kvs) \<Longrightarrow> (k, v) \<in> set kvs \<Longrightarrow>
   map_of (fold (\<lambda>(k, v). AList.update k v) kvs al) k = Some v"
proof (induction kvs arbitrary: al rule: rev_induct)
  case (snoc kv kvs)
  then show ?case by (cases kv) (force simp: update_conv')
qed simp

text \<open>The stake of the i-th key, if the keys hash to different values.\<close>

lemma sim_genesis_stake:
  assumes "inj_on (\<lambda>i. hash_key W (to_public W (generate_key W i))) {..<length stake}"
    and "i < length stake"
  shows "map_of (gc_stakes (sim_genesis W stake)) (hash_key W (to_public W (generate_key W i))) =
    Some (snd (sim_stake_doc W (stake ! i) (generate_key W i)))"
proof -
  let ?kvs = "map (\<lambda>(amount, key). sim_stake_doc W amount key) (zip stake (secrets_of W stake))"
  have kvs: "?kvs = map (\<lambda>i. sim_stake_doc W (stake ! i) (generate_key W i)) [0..<length stake]"
    by (rule nth_equalityI) (simp_all add: secrets_of_def)
  then have "distinct (map fst ?kvs)"
    using assms(1) by (simp add: distinct_map comp_def sim_stake_doc_def atLeast0LessThan)
  moreover have "(hash_key W (to_public W (generate_key W i)),
      snd (sim_stake_doc W (stake ! i) (generate_key W i))) \<in> set ?kvs"
    unfolding kvs using assms(2) by (auto simp: sim_stake_doc_def)
  ultimately show ?thesis
    by (simp add: sim_genesis_def map_of_fold_update)
qed

section \<open>Properties\<close>

text \<open>C40: When the files of a simulated network were written, the i-th run script is a command that starts
  \<^verbatim>\<open>melnode\<close> with options that it accepts as long as the port fits sixteen bits: the
  node listens at and advertises port 2000 + i of the local host, bootstraps from the first node,
  has a database of its own, and reads the i-th staker's configuration and the common genesis,
  which holds the stake of the key it signs with, from epoch 0 to 1000000, with the amount given
  on the command line.  From the staker 63536 on the node refuses the address in its script and
  does not start.\<close>

theorem simnet_nodes_agree:
  assumes "main_create W stake fs = (Ok (), fs')" and "i < length stake" and "clap_ok v6 cli"
    and "\<And>path. read_file os path = map_of fs' path"
    and "\<And>cfg y. staker_yaml W cfg = Some y \<Longrightarrow> parse_staker_config os (as_bytes y) = Some cfg"
    and "\<And>g y. genesis_yaml W g = Some y \<Longrightarrow> parse_genesis os y = Some g"
    and "inj_on (\<lambda>i. hash_key W (to_public W (generate_key W i))) {..<length stake}"
  shows "\<exists>script words. map_of fs' (run_file i) = Some script \<and>
    shell_command script = Some (''melnode'', words) \<and>
    (if 2000 + i < 65536 then \<exists>a cfg g. cli words = Some a \<and>
       listen_addr a = SockAddr ''127.0.0.1'' (of_nat (2000 + i)) \<and>
       advertise_addr a = Some (listen_addr a) \<and> ar_bootstrap a = [''127.0.0.1:2000''] \<and>
       database a = Some (''.database-'' @ decimal i) \<and>
       staker_cfg_of os a = Ok (Some cfg) \<and> signing_secret cfg = generate_key W i \<and>
       genesis_config_of os a = Ok g \<and> gc_network g = Custom02 \<and>
       map_of (gc_stakes g) (hash_key W (to_public W (signing_secret cfg))) =
         Some \<lparr>sd_pubkey = to_public W (signing_secret cfg), sd_e_start = 0, sd_e_post_end = 1000000,
               sd_syms_staked = stake ! i\<rparr>
     else cli words = None)"
proof -
  let ?cfg = "sim_staker_config i (generate_key W i)"
  have "staker_cfg_of os a = Ok (Some ?cfg)" if "ar_staker_cfg a = Some (staker_file i)" for a
    using main_create_files(1) [OF assms(1,2)] assms(4,5) that
    by (auto simp: staker_cfg_of_def option_to_res_def)
  moreover have "genesis_config_of os a = Ok (sim_genesis W stake)"
    if "override_genesis a = Some ''genesis.yaml''" for a
    using main_create_files(3) [OF assms(1)] assms(4,6) that
    by (auto simp: genesis_config_of_def option_to_res_def)
  moreover have "signing_secret ?cfg = generate_key W i" and "gc_network (sim_genesis W stake) = Custom02"
    by (simp_all add: sim_staker_config_def sim_genesis_def)
  ultimately show ?thesis
    using main_create_files(2) [OF assms(1,2)] run_cmd_command [of i] sim_genesis_stake [OF assms(7,2)]
      sim_options_set [OF assms(3), of i, unfolded sim_options_args]
    by (intro exI [of _ "as_bytes (run_cmd i)"] exI [of _ "option_words (sim_options i)"])
      (simp add: listen_addr_def advertise_addr_def sim_stake_doc_def)
qed

text \<open>The listening ports of the stakers, cut to sixteen bits, are distinct exactly when there are at
  most 65536 of them, though they wrap below 5000 well before; all stakers bootstrap from
  the first.\<close>

theorem simnet_ports_distinct:
  "(distinct (map sc_listen (sim_staker_configs W stake)) \<longleftrightarrow> length stake \<le> 2 ^ 16) \<and>
    (\<forall>cfg\<in>set (sim_staker_configs W stake).
       sc_bootstrap cfg = sc_listen (hd (sim_staker_configs W stake)))"
proof
  let ?port = "\<lambda>i::nat. SockAddr ''127.0.0.1'' (of_nat (i + 5000))"
  have listens: "map sc_listen (sim_staker_configs W stake) = map ?port [0..<length stake]"
    by (rule nth_equalityI) (simp_all add: nth_sim_staker_configs sim_staker_config_def)
  have port: "?port i = ?port j \<longleftrightarrow> i mod 2 ^ 16 = j mod 2 ^ 16" for i j
    by (simp add: word_of_nat_eq_iff take_bit_eq_mod)
  have "inj_on ?port {0..<length stake} \<longleftrightarrow> length stake \<le> 2 ^ 16"
  proof
    assume inj: "inj_on ?port {0..<length stake}"
    show "length stake \<le> 2 ^ 16"
    proof (rule ccontr)
      assume "\<not> length stake \<le> 2 ^ 16"
      then have mem: "0 \<in> {0..<length stake}" "2 ^ 16 \<in> {0..<length stake}" by auto
      have "?port 0 = ?port (2 ^ 16)" by (subst port) simp
      from inj_onD [OF inj this mem] show False by simp
    qed
  next
    assume "length stake \<le> 2 ^ 16"
    then show "inj_on ?port {0..<length stake}"
      by (intro inj_onI) (simp only: port, simp)
  qed
  then show "distinct (map sc_listen (sim_staker_configs W stake)) \<longleftrightarrow> length stake \<le> 2 ^ 16"
    unfolding listens by (simp add: distinct_map)
  show "\<forall>cfg\<in>set (sim_staker_configs W stake).
      sc_bootstrap cfg = sc_listen (hd (sim_staker_configs W stake))"
  proof
    fix cfg
    assume "cfg \<in> set (sim_staker_configs W stake)"
    then obtain i where i: "i < length stake" "cfg = sim_staker_configs W stake ! i"
      by (auto simp: in_set_conv_nth)
    then have "hd (sim_staker_configs W stake) = sim_staker_configs W stake ! 0"
      by (intro hd_conv_nth) (metis length_sim_staker_configs list.size(3) not_less_zero)
    moreover have "0 < length stake" using i(1) by (rule le_less_trans [OF le0])
    ultimately show "sc_bootstrap cfg = sc_listen (hd (sim_staker_configs W stake))"
      using i nth_sim_staker_configs [of i stake W] nth_sim_staker_configs [of 0 stake W]
      by (simp add: sim_staker_config_def)
  qed
qed

section \<open>Witnesses\<close>

definition demo_sim_genesis :: genesis_config where
  "demo_sim_genesis =
     \<lparr>gc_network = Custom02,
      gc_init_coindata = \<lparr>cd_covhash = 0, cd_value = 0, cd_denom = Mel, cd_additional_data = []\<rparr>,
      gc_stakes =
        [(0, \<lparr>sd_pubkey = 0, sd_e_start = 0, sd_e_post_end = 1000000, sd_syms_staked = 5\<rparr>),
         (1, \<lparr>sd_pubkey = 1, sd_e_start = 0, sd_e_post_end = 1000000, sd_syms_staked = 7\<rparr>)],
      gc_init_fee_pool = 0, gc_init_fee_multiplier = 100\<rparr>"

definition demo_sim :: sim where
  "demo_sim =
     \<lparr>to_public = (\<lambda>k. of_nat (length k)), sign = (\<lambda>k h. []),
      generate_key = (\<lambda>i. replicate i 0), hash_key = (\<lambda>pk. pk),
      staker_yaml = (\<lambda>cfg. if cfg = sim_staker_config 0 [] then Some ''0''
        else if cfg = sim_staker_config 1 [0] then Some ''1'' else None),
      genesis_yaml = (\<lambda>g. if g = demo_sim_genesis then Some [] else None),
      can_write = (\<lambda>path. True)\<rparr>"

definition demo_sim_files :: files where
  "demo_sim_files = snd (main_create demo_sim [5, 7] [])"

definition demo_sim_os :: "nat os" where
  "demo_sim_os =
     \<lparr>read_file = map_of demo_sim_files, parse_genesis = (\<lambda>b. Some demo_sim_genesis),
      parse_staker_config = (\<lambda>b. Some
        (if b = as_bytes ''0'' then sim_staker_config 0 [] else sim_staker_config 1 [0])),
      std_testnet = demo_genesis, std_mainnet = demo_genesis, home_dir = Some ''/home'',
      create_dir_all = (\<lambda>p. True), disk = (\<lambda>p. Some (no_tables, 0)), resolve = (\<lambda>n. None),
      bootstrap_routes = (\<lambda>n. [])\<rparr>"

lemma demo_sim_create: "main_create demo_sim [5, 7] [] = (Ok (), demo_sim_files)"
proof -
  have secrets: "secrets_of demo_sim [5, 7] = [[], [0]]"
    by (simp add: secrets_of_def demo_sim_def upt_rec)
  then have "sim_genesis demo_sim [5, 7] = demo_sim_genesis"
    by (simp add: sim_genesis_def demo_sim_genesis_def sim_stake_doc_def) (simp add: demo_sim_def)
  moreover have "can_write demo_sim path" for path by (simp add: demo_sim_def)
  moreover have "genesis_yaml demo_sim demo_sim_genesis = Some []" by (simp add: demo_sim_def)
  moreover have "staker_yaml demo_sim (sim_staker_config 0 []) = Some ''0''"
    and "staker_yaml demo_sim (sim_staker_config 1 [0]) = Some ''1''"
    by (simp_all add: demo_sim_def sim_staker_config_def)
  ultimately have "fst (main_create demo_sim [5, 7] []) = Ok ()"
    using secrets
    by (simp add: main_create_def sim_staker_configs_def write_file_def option_to_res_def)
  then show ?thesis unfolding demo_sim_files_def by (intro prod_eqI) simp_all
qed

text \<open>A command line parser that pairs each option with its value.\<close>

fun pair_options :: "string list \<Rightarrow> (string \<times> string option) list option" where
  "pair_options [] = Some []"
| "pair_options (w # ws) =
     (let name = drop 2 w in
      if name \<in> set flag_options then map_option (\<lambda>opts. (name, None) # opts) (pair_options ws)
      else case ws of
          v # vs \<Rightarrow> map_option (\<lambda>opts. (name, Some v) # opts) (pair_options vs)
        | [] \<Rightarrow> None)"

definition demo_cli :: "string list \<Rightarrow> main_args option" where
  "demo_cli ws = Option.bind (pair_options ws) (\<lambda>opts. set_options (\<lambda>s. None) opts default_args)"

lemma valued_not_flag: "name \<in> set valued_options \<Longrightarrow> name \<notin> set flag_options"
  by (auto simp: valued_options_def flag_options_def)

lemma demo_clap_ok: "clap_ok (\<lambda>s. None) demo_cli"
proof -
  have "pair_options (option_words opts) = Some opts"
    if "\<forall>(name, v)\<in>set opts. case v of
        Some v \<Rightarrow> name \<in> set valued_options \<and> v \<noteq> [] \<and> \<not> prefix ''-'' v
      | None \<Rightarrow> name \<in> set flag_options" for opts
    using that by (induction opts rule: option_words.induct) (simp_all add: valued_not_flag)
  then show ?thesis by (simp add: clap_ok_def demo_cli_def)
qed

theorem simnet_nodes_agree_witness:
  "\<exists>script words a cfg g. map_of demo_sim_files (run_file 1) = Some script \<and>
    shell_command script = Some (''melnode'', words) \<and> demo_cli words = Some a \<and>
    listen_addr a = SockAddr ''127.0.0.1'' 2001 \<and>
    staker_cfg_of demo_sim_os a = Ok (Some cfg) \<and> signing_secret cfg = [0] \<and>
    genesis_config_of demo_sim_os a = Ok g \<and>
    map_of (gc_stakes g) 1 = Some \<lparr>sd_pubkey = 1, sd_e_start = 0, sd_e_post_end = 1000000, sd_syms_staked = 7\<rparr>"
proof -
  have inj: "inj_on (\<lambda>i. hash_key demo_sim (to_public demo_sim (generate_key demo_sim i)))
      {..<length [5, 7 :: u128]}"
    by (simp add: demo_sim_def lessThan_Suc)
  have reads: "read_file demo_sim_os path = map_of demo_sim_files path" for path
    by (simp add: demo_sim_os_def)
  have cfgs: "parse_staker_config demo_sim_os (as_bytes y) = Some cfg" if "staker_yaml demo_sim cfg = Some y" for cfg y
    using that by (auto simp: demo_sim_os_def demo_sim_def split: if_splits)
  have gens: "parse_genesis demo_sim_os y = Some g" if "genesis_yaml demo_sim g = Some y" for g y
    using that by (auto simp: demo_sim_os_def demo_sim_def split: if_splits)
  have one: "1 < length [5, 7 :: u128]" by simp
  from simnet_nodes_agree [OF demo_sim_create one demo_clap_ok reads cfgs gens inj]
  show ?thesis by (fastforce simp: demo_sim_def)
qed

end
