(* ===== verification/Spec2Isabelle.thy ===== *)
theory Spec2Isabelle
  imports Sync_Props Waiter Cas Staker_Props Startup Migrate Simnet
begin

text \<open>
  A verification library for \<^verbatim>\<open>melnode\<close>, the reference node of the Mel blockchain.

  \<^bold>\<open>The program and its model.\<close>
  A node keeps the chain in \<^verbatim>\<open>Storage\<close>, fills it by synchronising with other nodes and, if it
  is a staker, by taking part in consensus; it answers requests about the chain, and collects
  transactions in a mempool.  Every theory models one part, with the source's names; an
  operation takes the state of its component and returns its result and the state it leaves.

  \<^item> \<open>Prelude\<close>: machine integers with the overflow checks that the build profiles turn on,
    results (\<open>Ok\<close>, \<open>Err\<close> for an \<^verbatim>\<open>anyhow::Error\<close>, \<open>Panic\<close> for an abort of the process),
    tables and caches as association lists, and the lemmas on them all theories share.
  \<^item> \<open>Chain\<close>: the data of \<^verbatim>\<open>melstructs\<close> as records, the code outside the repository as
    the record \<open>ext\<close>, and what is assumed of it.  \<open>Demo\<close> is an instance of \<open>ext\<close> that has
    these assumptions, for the witnesses.
  \<^item> \<open>Autoretry\<close>: \<^verbatim>\<open>src/autoretry.rs\<close>.
  \<^item> \<open>Mempool\<close>: \<^verbatim>\<open>src/storage/mempool.rs\<close>.
  \<^item> \<open>Cas\<close>: \<^verbatim>\<open>src/storage/smt.rs\<close>.
  \<^item> \<open>Quorum\<close>: the vote check of \<^verbatim>\<open>Storage::apply_block\<close>, and what was meant by it.
  \<^item> \<open>Storage\<close>: \<^verbatim>\<open>src/storage/storage.rs\<close>: the tables of SQLite, the block cache, and every
    operation.  \<open>Waiter\<close>: \<^verbatim>\<open>get_state_or_wait\<close>, interleaved with blocks that are applied,
    as a step relation.
  \<^item> \<open>Wire\<close> and \<open>Node\<close>: the data of the RPC protocol and \<^verbatim>\<open>NodeRpcImpl\<close> of
    \<^verbatim>\<open>src/node.rs\<close>, with its caches and every request.
  \<^item> \<open>Blksync\<close>: \<^verbatim>\<open>src/node/blksync.rs\<close>, both protocols, and \<^verbatim>\<open>blksync_loop\<close> of
    \<^verbatim>\<open>src/node.rs\<close>, against an arbitrary peer.
  \<^item> \<open>Staker\<close>: \<^verbatim>\<open>src/staker.rs\<close>, over an arbitrary consensus algorithm.
  \<^item> \<open>Args\<close>, \<open>Indexer\<close>, \<open>Startup\<close>: \<^verbatim>\<open>src/args.rs\<close>, \<^verbatim>\<open>src/node/indexer.rs\<close>, and
    \<^verbatim>\<open>Node::start\<close> with \<^verbatim>\<open>src/main.rs\<close> and its self-test.
  \<^item> \<open>Cli\<close>: what the options declared in \<^verbatim>\<open>src/args.rs\<close> set, and how the words of a shell
    script get there.
  \<^item> \<open>Migrate\<close>, \<open>Simnet\<close>: the programs \<^verbatim>\<open>src/bin/melnode-db-migrate.rs\<close> and
    \<^verbatim>\<open>src/bin/melsimnet.rs\<close>.

  \<^bold>\<open>Interfaces.\<close>
  \<open>Chain_Store\<close> has the contract between the storage and those who add blocks to it: the
  locale \<open>chain_store\<close> (an accepted block is the next one, reads back, and nothing else
  moves), and \<open>proof_store\<close>, which extends it by the proofs.  Its \<open>apply_all\<close> adds a list of
  blocks in order up to the first that is refused; a synchronisation with an honest peer and a
  migration are proved equal to it.  \<open>Storage_Inv\<close> interprets it on
  \<open>apply_block\<close>, \<open>Blksync\<close> on the block application of a synchronisation; the lemmas proved
  in the locales carry the results on synchronisation, migration and staking.

  \<^bold>\<open>What the lemmas show.\<close>
  \<^item> \<open>Quorum\<close>: the code's sum and the intended one, when they agree and when not.
  \<^item> \<open>Storage_Inv\<close>, \<open>Storage_Props\<close>: the storage invariant (blocks 1 to n in order, each with
    its proof, the cache coherent) is kept by every operation; the reads are functions of the
    tables; every outcome of \<open>apply_block\<close>, the abort that leaves a database no restart
    repairs included; blocks that once were stored stay.
  \<^item> \<open>Mempool\<close>: the provisional state is the replay of the accepted transactions.
  \<^item> \<open>Waiter\<close>: no wake-up is lost, and a waiter returns once its block is there.
  \<^item> \<open>Node_Inv\<close>, \<open>Batch\<close>, \<open>Node_Props\<close>: the caches of a node agree with its chain, under any
    sequence of requests and new blocks; what each request returns; the size of a batch.
  \<^item> \<open>Sync_Props\<close>: a synchronisation only extends the chain whatever the peer sends; from an
    honest peer it gets the whole chain; when it ends, and that it may not.
  \<^item> \<open>Staker_Props\<close>: a staker never damages the chain, whatever consensus and neighbours do; a
    quorum of the consensus passes the vote check of the commit and, within an epoch, the
    gathering loop, which at the start of an epoch may wait for ever; gathered signatures commit,
    and forged ones end a round with nothing.
  \<^item> \<open>Startup\<close>: the self-test replays the stored chain through the state machine.
  \<^item> \<open>Migrate\<close>, \<open>Simnet\<close>: what is in the new database, and that the nodes started by the
    scripts of a simulated network read one consistent configuration.

  \<^bold>\<open>Loops.\<close>
  Loops over data are structural recursions.  The loops that may run for ever
  (\<open>Blksync.sync_loop\<close>, \<open>Node.lz4_loop\<close>, \<open>Node.indexer_wait\<close>) are partial functions, with
  \<open>None\<close> for a call that does not return; that they return is proved where it holds.
  \<open>Autoretry.autoretry_loop\<close> ends, because the interval between two tries grows until it
  overflows; its measure is in the theory.  The endless loops of the background tasks are modelled by one turn, or by a
  list of turns with what happens around each.  There is no fuel.

  \<^bold>\<open>Not modelled.\<close>
  The libraries the node calls: the state machine (\<^verbatim>\<open>melstf\<close>), the encodings
  (\<^verbatim>\<open>stdcode\<close>), cryptography (\<^verbatim>\<open>tmelcrypt\<close>), the consensus algorithm
  (\<^verbatim>\<open>streamlette\<close>), the Merkle trees (\<^verbatim>\<open>novasmt\<close>, \<^verbatim>\<open>meshanina\<close>), the coin index
  (\<^verbatim>\<open>melblkidx\<close>), the network (\<^verbatim>\<open>melnet2\<close>) and the eviction policies of the caches are
  parameters.  A failure of SQLite is modelled where the code treats it differently from an
  abort: in the transaction that stores a block, and for integers SQLite cannot hold; reads are
  retried, so a passing failure only delays them.  The command line parser is a parameter with
  the law \<open>clap_ok\<close>, the votes of a stake set have the law \<open>votes_law\<close>.  The allocator, the
  profiler, logging, the connection pool, the threads of the executor and the real time spent
  sleeping are left out.  The race of a staker's round with blocks that arrive is modelled at
  the points where the round waits, with \<open>skip_round\<close> noticing the block there or not, and not
  inside an operation of the storage, which holds its lock.
\<close>

end
